theory Spec2Isabelle
  imports Complex_Main "HOL-Library.Monad_Syntax"
begin

section \<open>Conventions of the embedding\<close>

text \<open>
  The development embeds the MASSP encoder (\<^verbatim>\<open>src/build_waes.py\<close>, \<^verbatim>\<open>src/build_ws.py\<close>),
  the post-solve audit (\<^verbatim>\<open>src/audit.py\<close>), the instance validation
  (\<^verbatim>\<open>src/instance.py\<close>) and the unpacking of a solution vector (\<^verbatim>\<open>src/solve.py\<close>).

  \<^item> Python \<^verbatim>\<open>int\<close> is \<open>int\<close>; list positions are \<open>nat\<close>.
  \<^item> Python \<^verbatim>\<open>float\<close> is idealised as an exact rational (\<open>rat\<close>): sums and products are
    exact, there is no NaN and no infinity.
  \<^item> A tuple of indices (\<^verbatim>\<open>instance.N\<close>, \<^verbatim>\<open>instance.M\<close>, ...) is an \<open>int list\<close>: the loops
    of the source run over the tuple as it is, repeated entries included.
  \<^item> A dictionary that is only read is a map \<open>'k \<rightharpoonup> 'v\<close>; a dictionary that is written
    and later iterated is an association list in insertion order (type \<open>dict\<close>).
  \<^item> The only exception the modelled functions can raise is \<^verbatim>\<open>KeyError\<close> (a missing
    dictionary key); it is the value \<open>None\<close> of an \<open>option\<close> result. \<^verbatim>\<open>validate_instance\<close>
    raises \<^verbatim>\<open>ValueError\<close> exactly when the model returns \<open>False\<close>.
  \<^item> The one-letter fields of \<^verbatim>\<open>InstanceData\<close> carry the prefix \<open>inst_\<close>; the fields
    \<^verbatim>\<open>mode\<close>, \<^verbatim>\<open>objective\<close>, \<^verbatim>\<open>x_aijk\<close>, \<^verbatim>\<open>y_tija\<close>, \<^verbatim>\<open>y_tj\<close> and \<^verbatim>\<open>status\<close> of
    \<^verbatim>\<open>SolvedValues\<close> carry the prefix \<open>solved_\<close>.
\<close>

subsection \<open>Loops that may raise\<close>

fun for_loop :: "('a \<Rightarrow> 's \<Rightarrow> 's option) \<Rightarrow> 'a list \<Rightarrow> 's \<Rightarrow> 's option" where
  "for_loop body [] s = Some s"
| "for_loop body (x # xs) s = (case body x s of None \<Rightarrow> None | Some s' \<Rightarrow> for_loop body xs s')"

text \<open>\<^verbatim>\<open>sum(generator)\<close>: the terms are evaluated in order; a term that raises makes the sum raise.\<close>

definition py_sum :: "rat option list \<Rightarrow> rat option" where
  "py_sum ts = map_option sum_list (those ts)"

subsection \<open>Dictionaries in insertion order\<close>

type_synonym ('k, 'v) dict = "('k \<times> 'v) list"

definition dict_lookup :: "('k, 'v) dict \<Rightarrow> 'k \<Rightarrow> 'v option" where
  "dict_lookup d k = map_of d k"

definition dict_get :: "('k, 'v) dict \<Rightarrow> 'k \<Rightarrow> 'v \<Rightarrow> 'v" where
  "dict_get d k dflt = (case map_of d k of None \<Rightarrow> dflt | Some v \<Rightarrow> v)"

fun dict_set :: "('k, 'v) dict \<Rightarrow> 'k \<Rightarrow> 'v \<Rightarrow> ('k, 'v) dict" where
  "dict_set [] k v = [(k, v)]"
| "dict_set ((k', v') # d) k v = (if k' = k then (k, v) # d else (k', v') # dict_set d k v)"

text \<open>\<^verbatim>\<open>m.get(k, ())\<close> on a map whose values are tuples.\<close>

definition get_or_empty :: "('k \<rightharpoonup> 'v list) \<Rightarrow> 'k \<Rightarrow> 'v list" where
  "get_or_empty m k = (case m k of None \<Rightarrow> [] | Some vs \<Rightarrow> vs)"

subsection \<open>Decimal rendering of integers (f-strings)\<close>

definition digit_char :: "nat \<Rightarrow> char" where
  "digit_char d = char_of (48 + d)"

fun str_nat :: "nat \<Rightarrow> string" where
  "str_nat n = (if n < 10 then [digit_char n] else str_nat (n div 10) @ [digit_char (n mod 10)])"

declare str_nat.simps [simp del]

definition str_int :: "int \<Rightarrow> string" where
  "str_int i = (if i < 0 then CHR ''-'' # str_nat (nat (- i)) else str_nat (nat i))"

section \<open>The instance (\<^verbatim>\<open>src/instance.py\<close>)\<close>

record InstanceData =
  inst_name :: string
  inst_n :: int
  inst_N :: "int list"
  inst_M1 :: "int list"
  inst_M2 :: "int list"
  inst_M :: "int list"
  inst_A :: "int list"
  inst_B :: "int list"
  inst_C :: "int list"
  inst_A1 :: "int list"
  inst_A2 :: "int list"
  inst_T :: "int list"
  inst_Ga :: "int \<rightharpoonup> int list"
  inst_d :: "int \<times> int \<rightharpoonup> rat"
  inst_s :: "int \<times> int \<rightharpoonup> rat"
  inst_v :: "int \<rightharpoonup> int"
  inst_r :: "int \<rightharpoonup> int"
  inst_Ta :: "int \<rightharpoonup> int list"
  inst_Ht :: "int \<rightharpoonup> int list"
  inst_c :: "int \<rightharpoonup> rat"
  inst_q :: int
  inst_p :: int
  inst_f :: int
  inst_Oj :: "int \<rightharpoonup> int list"
  inst_w :: rat
  inst_b :: "int \<times> int \<rightharpoonup> int"
  shift_start :: "int \<rightharpoonup> int"
  shift_length :: "int \<rightharpoonup> int"
  shift_cost_multiplier :: "int \<rightharpoonup> rat"
  paper_expected_objective :: "string \<rightharpoonup> rat"
  paper_objective_tolerance :: rat

text \<open>
  \<^verbatim>\<open>validate_instance\<close> collects one message per failed check and raises \<^verbatim>\<open>ValueError\<close> when
  the collection is not empty. The model is \<open>True\<close> exactly when no check appends a message;
  the conjuncts follow the checks of the source in their order.
\<close>

definition validate_instance :: "InstanceData \<Rightarrow> bool" where
  "validate_instance inst \<longleftrightarrow>
     set (inst_M1 inst) \<inter> set (inst_M2 inst) = {} \<and>
     set (inst_M inst) = set (inst_M1 inst) \<union> set (inst_M2 inst) \<and>
     set (inst_B inst) \<inter> set (inst_C inst) = {} \<and>
     set (inst_A inst) = set (inst_B inst) \<union> set (inst_C inst) \<and>
     set (inst_A1 inst) \<inter> set (inst_A2 inst) = {} \<and>
     set (inst_A inst) = set (inst_A1 inst) \<union> set (inst_A2 inst) \<and>
     inst_N inst = [1 .. inst_n inst] \<and>
     (\<forall>j \<in> set (inst_M inst).
        shift_start inst j \<noteq> None \<and> shift_length inst j \<noteq> None \<and>
        shift_cost_multiplier inst j \<noteq> None \<and>
        (\<forall>k \<in> set (inst_N inst).
           case inst_b inst (k, j) of None \<Rightarrow> False | Some bkj \<Rightarrow> bkj = 0 \<or> bkj = 1)) \<and>
     (\<forall>a \<in> set (inst_B inst). \<forall>i \<in> set (inst_N inst). inst_d inst (a, i) \<noteq> None) \<and>
     (\<forall>a \<in> set (inst_C inst).
        case inst_Ga inst a of None \<Rightarrow> False
        | Some parents \<Rightarrow> \<forall>a_parent \<in> set parents. inst_s inst (a, a_parent) \<noteq> None) \<and>
     (\<forall>a \<in> set (inst_A1 inst). inst_v inst a \<noteq> None) \<and>
     (\<forall>a \<in> set (inst_A2 inst). inst_r inst a \<noteq> None) \<and>
     (\<forall>a \<in> set (inst_A inst). inst_Ta inst a \<noteq> None \<and> inst_Ta inst a \<noteq> Some []) \<and>
     (\<forall>t \<in> set (inst_T inst).
        inst_Ht inst t \<noteq> None \<and> inst_Ht inst t \<noteq> Some [] \<and> inst_c inst t \<noteq> None) \<and>
     (\<forall>a \<in> set (inst_A inst). \<forall>t \<in> set (get_or_empty (inst_Ta inst) a).
        t \<in> set (inst_T inst) \<and> a \<in> set (get_or_empty (inst_Ht inst) t)) \<and>
     (\<forall>t \<in> set (inst_T inst). \<forall>a \<in> set (get_or_empty (inst_Ht inst) t).
        a \<in> set (inst_A inst) \<and> t \<in> set (get_or_empty (inst_Ta inst) a)) \<and>
     (\<forall>j \<in> set (inst_M1 inst).
        case inst_Oj inst j of None \<Rightarrow> False
        | Some window \<Rightarrow> int (length window) = inst_f inst \<and>
            (\<forall>i \<in> set window. i \<in> set (inst_N inst))) \<and>
     0 \<le> inst_w inst \<and> inst_w inst \<le> 1 \<and>
     0 < inst_q inst \<and> 0 \<le> inst_p inst \<and> 0 < inst_f inst"

section \<open>The windowing helpers\<close>

text \<open>
  \<^verbatim>\<open>_until_a1\<close> and \<^verbatim>\<open>_until_a2\<close> are defined twice in the source, once in
  \<^verbatim>\<open>src/build_waes.py\<close> and once in \<^verbatim>\<open>src/audit.py\<close>. Each copy is embedded on its own;
  a leading underscore is not an Isabelle name, so the encoder's copies are \<open>until_a1\<close>
  and \<open>until_a2\<close> and the audit's copies carry the prefix \<open>audit_\<close>.
\<close>

definition until_a1 :: "InstanceData \<Rightarrow> int \<Rightarrow> int \<Rightarrow> bool \<Rightarrow> int option" where
  "until_a1 inst i_or_k a ws =
     do {
       v_a \<leftarrow> (if ws then Some 0 else inst_v inst a);
       Some (min (i_or_k + v_a) (inst_n inst))
     }"

definition until_a2 :: "InstanceData \<Rightarrow> int \<Rightarrow> int \<Rightarrow> bool \<Rightarrow> int option" where
  "until_a2 inst i_or_k a ws =
     (if ws then Some i_or_k
      else do {
        r_a \<leftarrow> inst_r inst a;
        if r_a \<le> 0 then Some i_or_k
        else Some (max i_or_k (min r_a (inst_n inst)))
      })"

definition audit_until_a1 :: "InstanceData \<Rightarrow> int \<Rightarrow> int \<Rightarrow> bool \<Rightarrow> int option" where
  "audit_until_a1 inst i_or_k a ws =
     do {
       v_a \<leftarrow> (if ws then Some 0 else inst_v inst a);
       Some (min (i_or_k + v_a) (inst_n inst))
     }"

definition audit_until_a2 :: "InstanceData \<Rightarrow> int \<Rightarrow> int \<Rightarrow> bool \<Rightarrow> int option" where
  "audit_until_a2 inst i_or_k a ws =
     (if ws then Some i_or_k
      else do {
        r_a \<leftarrow> inst_r inst a;
        if r_a \<le> 0 then Some i_or_k
        else Some (max i_or_k (min r_a (inst_n inst)))
      })"

section \<open>The audit (\<^verbatim>\<open>src/audit.py\<close>, \<^verbatim>\<open>src/solution_types.py\<close>)\<close>

type_synonym XKey = "int \<times> int \<times> int \<times> int"
type_synonym YIKey = "int \<times> int \<times> int \<times> int"
type_synonym YSKey = "int \<times> int"

record SolvedValues =
  solved_mode :: string
  solved_objective :: rat
  solved_x_aijk :: "(XKey, rat) dict"
  solved_y_tija :: "(YIKey, rat) dict"
  solved_y_tj :: "(YSKey, rat) dict"
  solved_status :: string
  solver_time :: "rat option"
  mip_gap :: "rat option"
  solution_bound :: "rat option"

record AuditIssue =
  equation :: string
  detail :: string
  violation :: rat

record AuditReport =
  passed :: bool
  tolerance :: rat
  issues :: "AuditIssue list"

text \<open>\<^verbatim>\<open>str\<close> of a tuple of integers, as the f-strings of the integrality check render a key.\<close>

definition str_key4 :: "int \<times> int \<times> int \<times> int \<Rightarrow> string" where
  "str_key4 = (\<lambda>(k1, k2, k3, k4).
     ''('' @ str_int k1 @ '', '' @ str_int k2 @ '', '' @ str_int k3 @ '', '' @ str_int k4 @ '')'')"

definition str_key2 :: "int \<times> int \<Rightarrow> string" where
  "str_key2 = (\<lambda>(k1, k2). ''('' @ str_int k1 @ '', '' @ str_int k2 @ '')'')"

text \<open>Python's \<^verbatim>\<open>round\<close> of a float: the nearest integer, a tie going to the even one.\<close>

definition py_round :: "rat \<Rightarrow> int" where
  "py_round x =
     (let fl = \<lfloor>x\<rfloor>; fr = x - of_int fl
      in if fr < 1 / 2 then fl else if 1 / 2 < fr then fl + 1
         else if even fl then fl else fl + 1)"

text \<open>The three closures of \<^verbatim>\<open>run_audits\<close>; the list of issues they append to is passed explicitly.\<close>

definition check_eq :: "rat \<Rightarrow> string \<Rightarrow> rat \<Rightarrow> rat \<Rightarrow> string \<Rightarrow> AuditIssue list \<Rightarrow> AuditIssue list" where
  "check_eq tol eq lhs rhs det = (\<lambda>issues.
      let gap = \<bar>lhs - rhs\<bar>
      in if gap > tol then issues @ [\<lparr>equation = eq, detail = det, violation = gap\<rparr>] else issues)"

definition check_le :: "rat \<Rightarrow> string \<Rightarrow> rat \<Rightarrow> rat \<Rightarrow> string \<Rightarrow> AuditIssue list \<Rightarrow> AuditIssue list" where
  "check_le tol eq lhs rhs det = (\<lambda>issues.
      let gap = lhs - rhs
      in if gap > tol then issues @ [\<lparr>equation = eq, detail = det, violation = gap\<rparr>] else issues)"

definition check_ge :: "rat \<Rightarrow> string \<Rightarrow> rat \<Rightarrow> rat \<Rightarrow> string \<Rightarrow> AuditIssue list \<Rightarrow> AuditIssue list" where
  "check_ge tol eq lhs rhs det = (\<lambda>issues.
      let gap = rhs - lhs
      in if gap > tol then issues @ [\<lparr>equation = eq, detail = det, violation = gap\<rparr>] else issues)"

text \<open>
  The generator \<^verbatim>\<open>solved.x_aijk[(a, i, j, k)] * instance.b[(k, j)] for j in instance.M for k in
  range(i, until + 1)\<close> summed in the checks of Eq. (2) to (5) (lines 73-77, 85-89, 97-101 and
  117-121 of \<^verbatim>\<open>src/audit.py\<close>, the same text four times).
\<close>

definition window_lhs :: "InstanceData \<Rightarrow> SolvedValues \<Rightarrow> int \<Rightarrow> int \<Rightarrow> int \<Rightarrow> rat option" where
  "window_lhs inst solved a i until =
     py_sum [do { x \<leftarrow> dict_lookup (solved_x_aijk solved) (a, i, j, k);
                  bkj \<leftarrow> inst_b inst (k, j);
                  Some (x * of_int bkj) }.
             j \<leftarrow> inst_M inst, k \<leftarrow> [i .. until]]"

text \<open>
  The dependency expression of Eq. (4) and (5) (lines 102-110 and 122-130): for each parent
  the share times the parent's volume executed at interval \<open>k\<close>.
\<close>

definition dependency_rhs :: "InstanceData \<Rightarrow> SolvedValues \<Rightarrow> int \<Rightarrow> int \<Rightarrow> rat option" where
  "dependency_rhs inst solved a k =
     do {
       parents \<leftarrow> inst_Ga inst a;
       py_sum [do { share \<leftarrow> inst_s inst (a, a_parent);
                    volume \<leftarrow> py_sum [dict_lookup (solved_x_aijk solved) (a_parent, i, j, k).
                                        j \<leftarrow> inst_M inst, i \<leftarrow> inst_N inst];
                    Some (share * volume) }.
               a_parent \<leftarrow> parents]
     }"

definition audit_eq2 :: "InstanceData \<Rightarrow> SolvedValues \<Rightarrow> bool \<Rightarrow> rat \<Rightarrow> AuditIssue list \<Rightarrow> AuditIssue list option" where
  "audit_eq2 inst solved ws tol =
     for_loop (\<lambda>i. for_loop (\<lambda>a issues. do {
         until \<leftarrow> audit_until_a1 inst i a ws;
         lhs \<leftarrow> window_lhs inst solved a i until;
         rhs \<leftarrow> inst_d inst (a, i);
         Some (check_eq tol ''Eq(2)'' lhs rhs (''i='' @ str_int i @ '', a='' @ str_int a) issues)
       }) (sorted_list_of_set (set (inst_B inst) \<inter> set (inst_A1 inst)))) (inst_N inst)"

definition audit_eq3 :: "InstanceData \<Rightarrow> SolvedValues \<Rightarrow> bool \<Rightarrow> rat \<Rightarrow> AuditIssue list \<Rightarrow> AuditIssue list option" where
  "audit_eq3 inst solved ws tol =
     for_loop (\<lambda>i. for_loop (\<lambda>a issues. do {
         until \<leftarrow> audit_until_a2 inst i a ws;
         lhs \<leftarrow> window_lhs inst solved a i until;
         rhs \<leftarrow> inst_d inst (a, i);
         Some (check_eq tol ''Eq(3)'' lhs rhs (''i='' @ str_int i @ '', a='' @ str_int a) issues)
       }) (sorted_list_of_set (set (inst_B inst) \<inter> set (inst_A2 inst)))) (inst_N inst)"

definition audit_eq4 :: "InstanceData \<Rightarrow> SolvedValues \<Rightarrow> bool \<Rightarrow> rat \<Rightarrow> AuditIssue list \<Rightarrow> AuditIssue list option" where
  "audit_eq4 inst solved ws tol =
     for_loop (\<lambda>k. for_loop (\<lambda>a issues. do {
         until \<leftarrow> audit_until_a1 inst k a ws;
         lhs \<leftarrow> window_lhs inst solved a k until;
         rhs \<leftarrow> dependency_rhs inst solved a k;
         Some (check_ge tol ''Eq(4)'' lhs rhs (''k='' @ str_int k @ '', a='' @ str_int a) issues)
       }) (sorted_list_of_set (set (inst_C inst) \<inter> set (inst_A1 inst)))) (inst_N inst)"

definition audit_eq5 :: "InstanceData \<Rightarrow> SolvedValues \<Rightarrow> bool \<Rightarrow> rat \<Rightarrow> AuditIssue list \<Rightarrow> AuditIssue list option" where
  "audit_eq5 inst solved ws tol =
     for_loop (\<lambda>k. for_loop (\<lambda>a issues. do {
         until \<leftarrow> audit_until_a2 inst k a ws;
         lhs \<leftarrow> window_lhs inst solved a k until;
         rhs \<leftarrow> dependency_rhs inst solved a k;
         Some (check_ge tol ''Eq(5)'' lhs rhs (''k='' @ str_int k @ '', a='' @ str_int a) issues)
       }) (sorted_list_of_set (set (inst_C inst) \<inter> set (inst_A2 inst)))) (inst_N inst)"

definition audit_eq6 :: "InstanceData \<Rightarrow> SolvedValues \<Rightarrow> rat \<Rightarrow> AuditIssue list \<Rightarrow> AuditIssue list option" where
  "audit_eq6 inst solved tol =
     for_loop (\<lambda>k. for_loop (\<lambda>j. for_loop (\<lambda>a issues. do {
         lhs \<leftarrow> py_sum [dict_lookup (solved_x_aijk solved) (a, i, j, k). i \<leftarrow> [1 .. k]];
         profiles \<leftarrow> inst_Ta inst a;
         rhs \<leftarrow> py_sum [dict_lookup (solved_y_tija solved) (t, k, j, a). t \<leftarrow> profiles];
         Some (check_le tol ''Eq(6)'' lhs rhs
                 (''k='' @ str_int k @ '', j='' @ str_int j @ '', a='' @ str_int a) issues)
       }) (inst_A inst)) (inst_M inst)) (inst_N inst)"

definition audit_eq7 :: "InstanceData \<Rightarrow> SolvedValues \<Rightarrow> rat \<Rightarrow> AuditIssue list \<Rightarrow> AuditIssue list option" where
  "audit_eq7 inst solved tol =
     for_loop (\<lambda>i. for_loop (\<lambda>j. for_loop (\<lambda>t issues. do {
         acts \<leftarrow> inst_Ht inst t;
         lhs \<leftarrow> py_sum [dict_lookup (solved_y_tija solved) (t, i, j, a). a \<leftarrow> acts];
         rhs \<leftarrow> dict_lookup (solved_y_tj solved) (t, j);
         Some (check_le tol ''Eq(7)'' lhs rhs
                 (''i='' @ str_int i @ '', j='' @ str_int j @ '', t='' @ str_int t) issues)
       }) (inst_T inst)) (inst_M inst)) (inst_N inst)"

definition audit_eq8 :: "InstanceData \<Rightarrow> SolvedValues \<Rightarrow> rat \<Rightarrow> AuditIssue list \<Rightarrow> AuditIssue list option" where
  "audit_eq8 inst solved tol =
     for_loop (\<lambda>i issues. do {
         lhs \<leftarrow> py_sum [dict_lookup (solved_y_tija solved) (t, i, j, a).
                         t \<leftarrow> inst_T inst, j \<leftarrow> inst_M inst, a \<leftarrow> inst_A inst];
         Some (check_le tol ''Eq(8)'' lhs (of_int (inst_q inst)) (''i='' @ str_int i) issues)
       }) (inst_N inst)"

text \<open>
  In Eq. (9) the inner iterable \<^verbatim>\<open>instance.Ht[t]\<close> of the generator is looked up once per
  interval of the break window, so a missing key raises only when the window is not empty.
\<close>

definition audit_eq9 :: "InstanceData \<Rightarrow> SolvedValues \<Rightarrow> rat \<Rightarrow> AuditIssue list \<Rightarrow> AuditIssue list option" where
  "audit_eq9 inst solved tol =
     for_loop (\<lambda>t. for_loop (\<lambda>j issues. do {
         window \<leftarrow> inst_Oj inst j;
         lhs \<leftarrow> py_sum (concat (map (\<lambda>i.
                   case inst_Ht inst t of None \<Rightarrow> [None]
                   | Some acts \<Rightarrow> map (\<lambda>a. dict_lookup (solved_y_tija solved) (t, i, j, a)) acts)
                 window));
         y \<leftarrow> dict_lookup (solved_y_tj solved) (t, j);
         Some (check_le tol ''Eq(9)'' lhs (of_int (inst_f inst - inst_p inst) * y)
                 (''t='' @ str_int t @ '', j='' @ str_int j) issues)
       }) (inst_M1 inst)) (inst_T inst)"

definition audit_eq10 :: "InstanceData \<Rightarrow> SolvedValues \<Rightarrow> rat \<Rightarrow> AuditIssue list \<Rightarrow> AuditIssue list option" where
  "audit_eq10 inst solved tol = (\<lambda>issues.
     do {
       lhs \<leftarrow> py_sum [dict_lookup (solved_y_tj solved) (t, j). j \<leftarrow> inst_M2 inst, t \<leftarrow> inst_T inst];
       total \<leftarrow> py_sum [dict_lookup (solved_y_tj solved) (t, j). j \<leftarrow> inst_M inst, t \<leftarrow> inst_T inst];
       Some (check_le tol ''Eq(10)'' lhs (inst_w inst * total) ''part-time-share'' issues)
     })"

text \<open>Eq. (11): the three loops over the items of the solved dictionaries; they cannot raise.\<close>

definition audit_eq11 :: "SolvedValues \<Rightarrow> rat \<Rightarrow> AuditIssue list \<Rightarrow> AuditIssue list" where
  "audit_eq11 solved tol = (\<lambda>issues.
      let issues = fold (\<lambda>(key, val) issues.
                     check_eq tol ''Eq(11)'' val (of_int (py_round val)) (''x'' @ str_key4 key) issues)
                   (solved_x_aijk solved) issues;
          issues = fold (\<lambda>(key, val) issues.
                     check_eq tol ''Eq(11)'' val (of_int (py_round val)) (''y_tija'' @ str_key4 key) issues)
                   (solved_y_tija solved) issues
      in fold (\<lambda>(key, val) issues.
                 check_eq tol ''Eq(11)'' val (of_int (py_round val)) (''y_tj'' @ str_key2 key) issues)
              (solved_y_tj solved) issues)"

definition run_audits :: "InstanceData \<Rightarrow> SolvedValues \<Rightarrow> bool \<Rightarrow> rat \<Rightarrow> AuditReport option" where
  "run_audits inst solved ws tol =
     do {
       issues \<leftarrow> audit_eq2 inst solved ws tol [];
       issues \<leftarrow> audit_eq3 inst solved ws tol issues;
       issues \<leftarrow> audit_eq4 inst solved ws tol issues;
       issues \<leftarrow> audit_eq5 inst solved ws tol issues;
       issues \<leftarrow> audit_eq6 inst solved tol issues;
       issues \<leftarrow> audit_eq7 inst solved tol issues;
       issues \<leftarrow> audit_eq8 inst solved tol issues;
       issues \<leftarrow> audit_eq9 inst solved tol issues;
       issues \<leftarrow> audit_eq10 inst solved tol issues;
       let issues = audit_eq11 solved tol issues;
       Some \<lparr>passed = (issues = []), tolerance = tol, issues = issues\<rparr>
     }"

text \<open>The default of the parameter \<^verbatim>\<open>tol\<close>.\<close>

definition default_tol :: rat where
  "default_tol = 1 / 10000"

section \<open>The encoder (\<^verbatim>\<open>src/build_waes.py\<close>, \<^verbatim>\<open>src/build_ws.py\<close>)\<close>

text \<open>A bound is a float or one of the strings \<^verbatim>\<open>"inf"\<close> and \<^verbatim>\<open>"ninf"\<close>.\<close>

datatype bound = Num rat | Inf | NInf

record WAESModel =
  variable_names :: "string list"
  variable_types :: "string list"
  objective_coeffs :: "rat list"
  variable_lb :: "bound list"
  variable_ub :: "bound list"
  csr_offsets :: "nat list"
  csr_indices :: "nat list"
  csr_values :: "rat list"
  constraint_lb :: "bound list"
  constraint_ub :: "bound list"
  x_aijk :: "(XKey, nat) dict"
  y_tija :: "(YIKey, nat) dict"
  y_tj :: "(YSKey, nat) dict"
  ws_mode :: bool

text \<open>
  The local variables of \<^verbatim>\<open>build_waes_model\<close> are exactly the fields of the model it returns,
  so the model record is the state that the closures \<^verbatim>\<open>add_var\<close> and \<^verbatim>\<open>add_row\<close> update.
\<close>

definition empty_model :: "bool \<Rightarrow> WAESModel" where
  "empty_model ws =
     \<lparr> variable_names = [], variable_types = [], objective_coeffs = [],
       variable_lb = [], variable_ub = [],
       csr_offsets = [0], csr_indices = [], csr_values = [],
       constraint_lb = [], constraint_ub = [],
       x_aijk = [], y_tija = [], y_tj = [], ws_mode = ws \<rparr>"

definition add_var :: "string \<Rightarrow> rat \<Rightarrow> bound \<Rightarrow> bound \<Rightarrow> string \<Rightarrow> WAESModel \<Rightarrow> nat \<times> WAESModel" where
  "add_var name obj lb ub vtype m =
     (length (variable_names m),
      m \<lparr> variable_names := variable_names m @ [name],
          objective_coeffs := objective_coeffs m @ [obj],
          variable_lb := variable_lb m @ [lb],
          variable_ub := variable_ub m @ [ub],
          variable_types := variable_types m @ [vtype] \<rparr>)"

text \<open>Eq. (11): the three loops that create the integer variables.\<close>

definition create_x :: "InstanceData \<Rightarrow> WAESModel \<Rightarrow> WAESModel" where
  "create_x inst =
     fold (\<lambda>a. fold (\<lambda>i. fold (\<lambda>j. fold (\<lambda>k m.
         let (idx, m) = add_var (''x_a'' @ str_int a @ ''_i'' @ str_int i @ ''_j'' @ str_int j
                                   @ ''_k'' @ str_int k)
                          0 (Num 0) (Num (of_int (inst_q inst))) ''I'' m
         in m \<lparr> x_aijk := dict_set (x_aijk m) (a, i, j, k) idx \<rparr>)
       (inst_N inst)) (inst_M inst)) (inst_N inst)) (inst_A inst)"

definition create_y_tija :: "InstanceData \<Rightarrow> WAESModel \<Rightarrow> WAESModel" where
  "create_y_tija inst =
     fold (\<lambda>t. fold (\<lambda>i. fold (\<lambda>j. fold (\<lambda>a m.
         let (idx, m) = add_var (''y_t'' @ str_int t @ ''_i'' @ str_int i @ ''_j'' @ str_int j
                                   @ ''_a'' @ str_int a)
                          0 (Num 0) (Num (of_int (inst_q inst))) ''I'' m
         in m \<lparr> y_tija := dict_set (y_tija m) (t, i, j, a) idx \<rparr>)
       (inst_A inst)) (inst_M inst)) (inst_N inst)) (inst_T inst)"

definition create_y_tj :: "InstanceData \<Rightarrow> WAESModel \<Rightarrow> WAESModel option" where
  "create_y_tj inst =
     for_loop (\<lambda>t. for_loop (\<lambda>j m. do {
         cost \<leftarrow> inst_c inst t;
         mult \<leftarrow> shift_cost_multiplier inst j;
         let (idx, m) = add_var (''y_t'' @ str_int t @ ''_j'' @ str_int j)
                          (cost * mult) (Num 0) (Num (of_int (inst_q inst))) ''I'' m;
         Some (m \<lparr> y_tj := dict_set (y_tj m) (t, j) idx \<rparr>)
       }) (inst_M inst)) (inst_T inst)"

text \<open>
  \<^verbatim>\<open>add_row\<close>. The items of the coefficient dictionary are sorted; their keys are distinct, so
  the order is the order of the keys. The threshold \<^verbatim>\<open>1e-12\<close> below which a coefficient is
  dropped is the first parameter; \<open>build_waes_model\<close> passes the constant of the source.
\<close>

type_synonym row = "(nat, rat) dict"

definition kept_entries :: "rat \<Rightarrow> row \<Rightarrow> (nat \<times> rat) list" where
  "kept_entries thr coeffs = filter (\<lambda>(var_idx, coeff). \<not> \<bar>coeff\<bar> \<le> thr) (sort_key fst coeffs)"

definition add_row :: "rat \<Rightarrow> row \<Rightarrow> bound \<Rightarrow> bound \<Rightarrow> WAESModel \<Rightarrow> WAESModel" where
  "add_row thr coeffs lb ub m =
     (let kept = kept_entries thr coeffs;
          indices = csr_indices m @ map fst kept
      in m \<lparr> csr_indices := indices,
             csr_values := csr_values m @ map snd kept,
             csr_offsets := csr_offsets m @ [length indices],
             constraint_lb := constraint_lb m @ [lb],
             constraint_ub := constraint_ub m @ [ub] \<rparr>)"

text \<open>
  The accumulation of the execution window into a row (lines 174-177, 186-189, 198-201 and
  217-220 of \<^verbatim>\<open>src/build_waes.py\<close>, the same text four times).
\<close>

definition window_row :: "InstanceData \<Rightarrow> WAESModel \<Rightarrow> int \<Rightarrow> int \<Rightarrow> int \<Rightarrow> row \<Rightarrow> row option" where
  "window_row inst m a i until =
     for_loop (\<lambda>j. for_loop (\<lambda>k row. do {
         idx \<leftarrow> dict_lookup (x_aijk m) (a, i, j, k);
         bkj \<leftarrow> inst_b inst (k, j);
         Some (dict_set row idx (dict_get row idx 0 + of_int bkj))
       }) [i .. until]) (inst_M inst)"

text \<open>The accumulation of the dependency expression (lines 203-208 and 222-227).\<close>

definition parents_row :: "InstanceData \<Rightarrow> WAESModel \<Rightarrow> int \<Rightarrow> int \<Rightarrow> row \<Rightarrow> row option" where
  "parents_row inst m a k = (\<lambda>row.
     do {
       parents \<leftarrow> inst_Ga inst a;
       for_loop (\<lambda>a_parent row. do {
           coeff \<leftarrow> inst_s inst (a, a_parent);
           for_loop (\<lambda>j. for_loop (\<lambda>i row. do {
               idx \<leftarrow> dict_lookup (x_aijk m) (a_parent, i, j, k);
               Some (dict_set row idx (dict_get row idx 0 - coeff))
             }) (inst_N inst)) (inst_M inst) row
         }) parents row
     })"

definition eq2_rows :: "rat \<Rightarrow> InstanceData \<Rightarrow> bool \<Rightarrow> WAESModel \<Rightarrow> WAESModel option" where
  "eq2_rows thr inst ws =
     for_loop (\<lambda>i. for_loop (\<lambda>a m. do {
         until \<leftarrow> until_a1 inst i a ws;
         row \<leftarrow> window_row inst m a i until [];
         rhs \<leftarrow> inst_d inst (a, i);
         Some (add_row thr row (Num rhs) (Num rhs) m)
       }) (sorted_list_of_set (set (inst_B inst) \<inter> set (inst_A1 inst)))) (inst_N inst)"

definition eq3_rows :: "rat \<Rightarrow> InstanceData \<Rightarrow> bool \<Rightarrow> WAESModel \<Rightarrow> WAESModel option" where
  "eq3_rows thr inst ws =
     for_loop (\<lambda>i. for_loop (\<lambda>a m. do {
         until \<leftarrow> until_a2 inst i a ws;
         row \<leftarrow> window_row inst m a i until [];
         rhs \<leftarrow> inst_d inst (a, i);
         Some (add_row thr row (Num rhs) (Num rhs) m)
       }) (sorted_list_of_set (set (inst_B inst) \<inter> set (inst_A2 inst)))) (inst_N inst)"

definition eq4_rows :: "rat \<Rightarrow> InstanceData \<Rightarrow> bool \<Rightarrow> WAESModel \<Rightarrow> WAESModel option" where
  "eq4_rows thr inst ws =
     for_loop (\<lambda>k. for_loop (\<lambda>a m. do {
         until \<leftarrow> until_a1 inst k a ws;
         row \<leftarrow> window_row inst m a k until [];
         row \<leftarrow> parents_row inst m a k row;
         Some (add_row thr row (Num 0) Inf m)
       }) (sorted_list_of_set (set (inst_C inst) \<inter> set (inst_A1 inst)))) (inst_N inst)"

definition eq5_rows :: "rat \<Rightarrow> InstanceData \<Rightarrow> bool \<Rightarrow> WAESModel \<Rightarrow> WAESModel option" where
  "eq5_rows thr inst ws =
     for_loop (\<lambda>k. for_loop (\<lambda>a m. do {
         until \<leftarrow> until_a2 inst k a ws;
         row \<leftarrow> window_row inst m a k until [];
         row \<leftarrow> parents_row inst m a k row;
         Some (add_row thr row (Num 0) Inf m)
       }) (sorted_list_of_set (set (inst_C inst) \<inter> set (inst_A2 inst)))) (inst_N inst)"

definition eq6_rows :: "rat \<Rightarrow> InstanceData \<Rightarrow> WAESModel \<Rightarrow> WAESModel option" where
  "eq6_rows thr inst =
     for_loop (\<lambda>k. for_loop (\<lambda>j. for_loop (\<lambda>a m. do {
         row \<leftarrow> for_loop (\<lambda>i row. do {
                   idx \<leftarrow> dict_lookup (x_aijk m) (a, i, j, k);
                   Some (dict_set row idx (dict_get row idx 0 + 1))
                 }) [1 .. k] [];
         profiles \<leftarrow> inst_Ta inst a;
         row \<leftarrow> for_loop (\<lambda>t row. do {
                   idx \<leftarrow> dict_lookup (y_tija m) (t, k, j, a);
                   Some (dict_set row idx (dict_get row idx 0 - 1))
                 }) profiles row;
         Some (add_row thr row NInf (Num 0) m)
       }) (inst_A inst)) (inst_M inst)) (inst_N inst)"

definition eq7_rows :: "rat \<Rightarrow> InstanceData \<Rightarrow> WAESModel \<Rightarrow> WAESModel option" where
  "eq7_rows thr inst =
     for_loop (\<lambda>i. for_loop (\<lambda>j. for_loop (\<lambda>t m. do {
         acts \<leftarrow> inst_Ht inst t;
         row \<leftarrow> for_loop (\<lambda>a row. do {
                   idx \<leftarrow> dict_lookup (y_tija m) (t, i, j, a);
                   Some (dict_set row idx (dict_get row idx 0 + 1))
                 }) acts [];
         idx_shift \<leftarrow> dict_lookup (y_tj m) (t, j);
         let row = dict_set row idx_shift (dict_get row idx_shift 0 - 1);
         Some (add_row thr row NInf (Num 0) m)
       }) (inst_T inst)) (inst_M inst)) (inst_N inst)"

definition eq8_rows :: "rat \<Rightarrow> InstanceData \<Rightarrow> WAESModel \<Rightarrow> WAESModel option" where
  "eq8_rows thr inst =
     for_loop (\<lambda>i m. do {
         row \<leftarrow> for_loop (\<lambda>t. for_loop (\<lambda>j. for_loop (\<lambda>a row. do {
                   idx \<leftarrow> dict_lookup (y_tija m) (t, i, j, a);
                   Some (dict_set row idx (dict_get row idx 0 + 1))
                 }) (inst_A inst)) (inst_M inst)) (inst_T inst) [];
         Some (add_row thr row NInf (Num (of_int (inst_q inst))) m)
       }) (inst_N inst)"

definition eq9_rows :: "rat \<Rightarrow> InstanceData \<Rightarrow> WAESModel \<Rightarrow> WAESModel option" where
  "eq9_rows thr inst =
     for_loop (\<lambda>t. for_loop (\<lambda>j m. do {
         window \<leftarrow> inst_Oj inst j;
         row \<leftarrow> for_loop (\<lambda>i row. do {
                   acts \<leftarrow> inst_Ht inst t;
                   for_loop (\<lambda>a row. do {
                       idx \<leftarrow> dict_lookup (y_tija m) (t, i, j, a);
                       Some (dict_set row idx (dict_get row idx 0 + 1))
                     }) acts row
                 }) window [];
         idx_shift \<leftarrow> dict_lookup (y_tj m) (t, j);
         let row = dict_set row idx_shift
                     (dict_get row idx_shift 0 - of_int (inst_f inst - inst_p inst));
         Some (add_row thr row NInf (Num 0) m)
       }) (inst_M1 inst)) (inst_T inst)"

definition eq10_row :: "rat \<Rightarrow> InstanceData \<Rightarrow> WAESModel \<Rightarrow> WAESModel option" where
  "eq10_row thr inst m =
     do {
       row \<leftarrow> for_loop (\<lambda>j. for_loop (\<lambda>t row. do {
                 idx \<leftarrow> dict_lookup (y_tj m) (t, j);
                 Some (dict_set row idx (dict_get row idx 0 + 1))
               }) (inst_T inst)) (inst_M2 inst) [];
       row \<leftarrow> for_loop (\<lambda>j. for_loop (\<lambda>t row. do {
                 idx \<leftarrow> dict_lookup (y_tj m) (t, j);
                 Some (dict_set row idx (dict_get row idx 0 - inst_w inst))
               }) (inst_T inst)) (inst_M inst) row;
       Some (add_row thr row NInf (Num 0) m)
     }"

definition create_variables :: "InstanceData \<Rightarrow> bool \<Rightarrow> WAESModel option" where
  "create_variables inst ws = create_y_tj inst (create_y_tija inst (create_x inst (empty_model ws)))"

definition build_waes_model_thr :: "rat \<Rightarrow> InstanceData \<Rightarrow> bool \<Rightarrow> WAESModel option" where
  "build_waes_model_thr thr inst ws =
     do {
       m \<leftarrow> create_variables inst ws;
       m \<leftarrow> eq2_rows thr inst ws m;
       m \<leftarrow> eq3_rows thr inst ws m;
       m \<leftarrow> eq4_rows thr inst ws m;
       m \<leftarrow> eq5_rows thr inst ws m;
       m \<leftarrow> eq6_rows thr inst m;
       m \<leftarrow> eq7_rows thr inst m;
       m \<leftarrow> eq8_rows thr inst m;
       m \<leftarrow> eq9_rows thr inst m;
       eq10_row thr inst m
     }"

definition build_waes_model :: "InstanceData \<Rightarrow> bool \<Rightarrow> WAESModel option" where
  "build_waes_model inst ws = build_waes_model_thr (1 / 10 ^ 12) inst ws"

definition build_ws_model :: "InstanceData \<Rightarrow> WAESModel option" where
  "build_ws_model inst = build_waes_model inst True"

text \<open>
  \<^verbatim>\<open>WAESModel.to_server_payload\<close>. The nested dictionaries of the payload are records; the
  entry \<^verbatim>\<open>solver_config\<close> is present exactly when the argument is a non-empty dictionary.
\<close>

record csr_constraint_matrix =
  offsets :: "nat list"
  indices :: "nat list"
  vals :: "rat list"

record bounds_pair =
  upper_bounds :: "bound list"
  lower_bounds :: "bound list"

record objective_data =
  coefficients :: "rat list"
  scalability_factor :: rat
  offset :: rat

record 'c server_payload =
  payload_csr_constraint_matrix :: csr_constraint_matrix
  payload_constraint_bounds :: bounds_pair
  payload_objective_data :: objective_data
  payload_variable_bounds :: bounds_pair
  maximize :: bool
  payload_variable_names :: "string list"
  payload_variable_types :: "string list"
  payload_solver_config :: "(string, 'c) dict option"

definition to_server_payload :: "WAESModel \<Rightarrow> (string, 'c) dict \<Rightarrow> 'c server_payload" where
  "to_server_payload m solver_config =
     \<lparr> payload_csr_constraint_matrix =
         \<lparr> offsets = csr_offsets m, indices = csr_indices m, vals = csr_values m \<rparr>,
       payload_constraint_bounds =
         \<lparr> upper_bounds = constraint_ub m, lower_bounds = constraint_lb m \<rparr>,
       payload_objective_data =
         \<lparr> coefficients = objective_coeffs m, scalability_factor = 1, offset = 0 \<rparr>,
       payload_variable_bounds =
         \<lparr> upper_bounds = variable_ub m, lower_bounds = variable_lb m \<rparr>,
       maximize = False,
       payload_variable_names = variable_names m,
       payload_variable_types = variable_types m,
       payload_solver_config = (if solver_config \<noteq> [] then Some solver_config else None) \<rparr>"

section \<open>Unpacking a solution vector (\<^verbatim>\<open>src/solve.py\<close>)\<close>

text \<open>
  The dictionary comprehensions \<^verbatim>\<open>{key: vector[idx] for key, idx in model.x_aijk.items()}\<close> of
  \<^verbatim>\<open>_collect_solution\<close> (lines 219-221); an index outside the vector raises.
\<close>

definition unpack_values :: "('k, nat) dict \<Rightarrow> rat list \<Rightarrow> ('k, rat) dict option" where
  "unpack_values d vector =
     those (map (\<lambda>(key, idx). if idx < length vector then Some (key, vector ! idx) else None) d)"

section \<open>Reading the constraint matrix\<close>

text \<open>
  The rows of the compressed sparse row matrix: row \<open>r\<close> owns the positions from
  \<open>csr_offsets ! r\<close> up to \<open>csr_offsets ! (r + 1)\<close>. A solution vector satisfies a row when
  the row's linear form lies between the row's bounds.
\<close>

definition row_count :: "WAESModel \<Rightarrow> nat" where
  "row_count m = length (constraint_lb m)"

definition row_entries :: "WAESModel \<Rightarrow> nat \<Rightarrow> (nat \<times> rat) list" where
  "row_entries m r =
     (let start = csr_offsets m ! r; stop = csr_offsets m ! (r + 1)
      in zip (take (stop - start) (drop start (csr_indices m)))
             (take (stop - start) (drop start (csr_values m))))"

definition dot :: "(nat \<times> rat) list \<Rightarrow> rat list \<Rightarrow> rat" where
  "dot entries vector = (\<Sum>(idx, coeff) \<leftarrow> entries. coeff * vector ! idx)"

definition within_bounds :: "bound \<Rightarrow> bound \<Rightarrow> rat \<Rightarrow> bool" where
  "within_bounds lb ub x \<longleftrightarrow>
     (case lb of Num l \<Rightarrow> l \<le> x | NInf \<Rightarrow> True | Inf \<Rightarrow> False) \<and>
     (case ub of Num u \<Rightarrow> x \<le> u | Inf \<Rightarrow> True | NInf \<Rightarrow> False)"

definition rows_satisfied :: "WAESModel \<Rightarrow> rat list \<Rightarrow> bool" where
  "rows_satisfied m vector \<longleftrightarrow>
     (\<forall>r \<in> {0 ..< row_count m}.
        within_bounds (constraint_lb m ! r) (constraint_ub m ! r) (dot (row_entries m r) vector))"

section \<open>Predicates used in the statements\<close>

text \<open>An issue of the integrality check carries the tag \<^verbatim>\<open>Eq(11)\<close>.\<close>

definition is_eq11 :: "AuditIssue \<Rightarrow> bool" where
  "is_eq11 found = (equation found = ''Eq(11)'')"

section \<open>Key spaces and invariants of the variable catalog\<close>

text \<open>
  The dense symbolic key spaces \<open>A \<times> N \<times> M \<times> N\<close>, \<open>T \<times> N \<times> M \<times> A\<close> and \<open>T \<times> M\<close>, and
  the facts that the three creation loops maintain: the index stored for a key is a position
  of the catalog, distinct keys (of the same or of different dictionaries) have distinct
  indices, and the objective coefficient at the index of a key is what the loop passed to
  \<open>add_var\<close>.
\<close>

definition indices_below :: "('k, nat) dict \<Rightarrow> nat \<Rightarrow> bool" where
  "indices_below d n \<longleftrightarrow> (\<forall>(k, v) \<in> set d. v < n)"

definition indices_apart :: "('k, nat) dict \<Rightarrow> ('l, nat) dict \<Rightarrow> bool" where
  "indices_apart d e \<longleftrightarrow> (\<forall>(k, v) \<in> set d. \<forall>(k', v') \<in> set e. v \<noteq> v')"

definition indices_inj :: "('k, nat) dict \<Rightarrow> bool" where
  "indices_inj d \<longleftrightarrow> (\<forall>(k, v) \<in> set d. \<forall>(k', v') \<in> set d. v = v' \<longrightarrow> k = k')"

definition catalog_ok :: "WAESModel \<Rightarrow> bool" where
  "catalog_ok m \<longleftrightarrow>
     length (objective_coeffs m) = length (variable_names m) \<and>
     distinct (map fst (x_aijk m)) \<and> distinct (map fst (y_tija m)) \<and> distinct (map fst (y_tj m)) \<and>
     indices_below (x_aijk m) (length (variable_names m)) \<and>
     indices_below (y_tija m) (length (variable_names m)) \<and>
     indices_below (y_tj m) (length (variable_names m)) \<and>
     indices_inj (x_aijk m) \<and> indices_inj (y_tija m) \<and> indices_inj (y_tj m) \<and>
     indices_apart (x_aijk m) (y_tija m) \<and> indices_apart (x_aijk m) (y_tj m) \<and>
     indices_apart (y_tija m) (y_tj m)"

definition objective_ok :: "InstanceData \<Rightarrow> WAESModel \<Rightarrow> bool" where
  "objective_ok inst m \<longleftrightarrow>
     (\<forall>(key, idx) \<in> set (x_aijk m). objective_coeffs m ! idx = 0) \<and>
     (\<forall>(key, idx) \<in> set (y_tija m). objective_coeffs m ! idx = 0) \<and>
     (\<forall>((t, j), idx) \<in> set (y_tj m).
        \<exists>cost mult. inst_c inst t = Some cost \<and> shift_cost_multiplier inst j = Some mult \<and>
          objective_coeffs m ! idx = cost * mult)"

text \<open>The part of the state that the closure \<open>add_row\<close> writes, and the part it leaves alone.\<close>

definition csr_of :: "WAESModel \<Rightarrow> nat list \<times> nat list \<times> rat list \<times> bound list \<times> bound list" where
  "csr_of m = (csr_offsets m, csr_indices m, csr_values m, constraint_lb m, constraint_ub m)"

definition catalog_of ::
  "WAESModel \<Rightarrow> string list \<times> string list \<times> rat list \<times> bound list \<times> bound list \<times>
     (XKey, nat) dict \<times> (YIKey, nat) dict \<times> (YSKey, nat) dict \<times> bool" where
  "catalog_of m = (variable_names m, variable_types m, objective_coeffs m, variable_lb m,
                   variable_ub m, x_aijk m, y_tija m, y_tj m, ws_mode m)"

definition x_keys :: "InstanceData \<Rightarrow> XKey set" where
  "x_keys inst = set (inst_A inst) \<times> set (inst_N inst) \<times> set (inst_M inst) \<times> set (inst_N inst)"

definition y_tija_keys :: "InstanceData \<Rightarrow> YIKey set" where
  "y_tija_keys inst = set (inst_T inst) \<times> set (inst_N inst) \<times> set (inst_M inst) \<times> set (inst_A inst)"

definition y_tj_keys :: "InstanceData \<Rightarrow> YSKey set" where
  "y_tj_keys inst = set (inst_T inst) \<times> set (inst_M inst)"

section \<open>When the encoder returns\<close>

text \<open>
  \<open>ready\<close>: the three index dictionaries cover exactly the dense key spaces.
  \<open>known_parents\<close>: every parent listed in \<open>Ga\<close> for a dependent activity is itself an
  activity of \<open>A\<close> (vacuous when there is no interval or no shift, since the loops over the
  parents' variables are then empty).
\<close>

definition ready :: "InstanceData \<Rightarrow> WAESModel \<Rightarrow> bool" where
  "ready inst m \<longleftrightarrow>
     fst ` set (x_aijk m) = x_keys inst \<and> fst ` set (y_tija m) = y_tija_keys inst \<and>
     fst ` set (y_tj m) = y_tj_keys inst"

definition known_parents :: "InstanceData \<Rightarrow> bool" where
  "known_parents inst \<longleftrightarrow>
     inst_N inst = [] \<or> inst_M inst = [] \<or>
     (\<forall>a \<in> set (inst_C inst). \<forall>a_parent \<in> set (get_or_empty (inst_Ga inst) a).
        a_parent \<in> set (inst_A inst))"

section \<open>Row count and mode-independent part of a model\<close>

text \<open>
  \<open>total_rows\<close>: the number of iterations of the nine row loops. \<open>var_catalog\<close>: the
  variable catalog and the three index dictionaries, that is every field of the model
  except the constraint matrix, the row bounds and the mode flag.
\<close>

definition total_rows :: "InstanceData \<Rightarrow> nat" where
  "total_rows inst =
     length (inst_N inst) * card (set (inst_B inst) \<inter> set (inst_A1 inst)) +
     length (inst_N inst) * card (set (inst_B inst) \<inter> set (inst_A2 inst)) +
     length (inst_N inst) * card (set (inst_C inst) \<inter> set (inst_A1 inst)) +
     length (inst_N inst) * card (set (inst_C inst) \<inter> set (inst_A2 inst)) +
     length (inst_N inst) * length (inst_M inst) * length (inst_A inst) +
     length (inst_N inst) * length (inst_M inst) * length (inst_T inst) +
     length (inst_N inst) +
     length (inst_T inst) * length (inst_M1 inst) +
     1"

definition var_catalog ::
  "WAESModel \<Rightarrow> string list \<times> string list \<times> rat list \<times> bound list \<times> bound list \<times>
     (XKey, nat) dict \<times> (YIKey, nat) dict \<times> (YSKey, nat) dict" where
  "var_catalog m = (variable_names m, variable_types m, objective_coeffs m, variable_lb m,
                    variable_ub m, x_aijk m, y_tija m, y_tj m)"

section \<open>Well-formed constraint matrices and unpacked solutions\<close>

text \<open>
  \<open>csr_ok\<close>: the offsets, indices, values and bounds of the matrix have the shape that
  \<open>add_row\<close> maintains. \<open>linked\<close>: the three dictionaries of the solved values are the
  solution vector read through the model's index dictionaries.
\<close>

definition csr_ok :: "WAESModel \<Rightarrow> bool" where
  "csr_ok m \<longleftrightarrow>
     length (csr_offsets m) = Suc (row_count m) \<and>
     length (constraint_ub m) = row_count m \<and>
     length (csr_values m) = length (csr_indices m) \<and>
     csr_offsets m ! row_count m = length (csr_indices m) \<and>
     (\<forall>r \<le> row_count m. csr_offsets m ! r \<le> length (csr_indices m))"

definition linked :: "WAESModel \<Rightarrow> SolvedValues \<Rightarrow> rat list \<Rightarrow> bool" where
  "linked m solved z \<longleftrightarrow>
     unpack_values (x_aijk m) z = Some (solved_x_aijk solved) \<and>
     unpack_values (y_tija m) z = Some (solved_y_tija solved) \<and>
     unpack_values (y_tj m) z = Some (solved_y_tj solved)"

text \<open>
  \<open>integer_valued\<close>: every solved value is an exact integer.
\<close>

definition integer_valued :: "SolvedValues \<Rightarrow> bool" where
  "integer_valued solved \<longleftrightarrow>
     list_all (\<lambda>(key, val). of_int \<lfloor>val\<rfloor> = val) (solved_x_aijk solved) \<and>
     list_all (\<lambda>(key, val). of_int \<lfloor>val\<rfloor> = val) (solved_y_tija solved) \<and>
     list_all (\<lambda>(key, val). of_int \<lfloor>val\<rfloor> = val) (solved_y_tj solved)"

section \<open>Example instances\<close>

text \<open>
  The scenario of the specification: two intervals, one full-time shift covering both, one
  independent deadline-bounded activity with \<open>v = 0\<close> and demands 3 and 2, one profile,
  \<open>q = 10\<close>.
\<close>

definition toy :: InstanceData where
  "toy = \<lparr> inst_name = ''toy'', inst_n = 2, inst_N = [1, 2],
           inst_M1 = [1], inst_M2 = [], inst_M = [1],
           inst_A = [1], inst_B = [1], inst_C = [], inst_A1 = [1], inst_A2 = [],
           inst_T = [1],
           inst_Ga = Map.empty,
           inst_d = [(1, 1) \<mapsto> 3, (1, 2) \<mapsto> 2],
           inst_s = Map.empty,
           inst_v = [1 \<mapsto> 0],
           inst_r = Map.empty,
           inst_Ta = [1 \<mapsto> [1]],
           inst_Ht = [1 \<mapsto> [1]],
           inst_c = [1 \<mapsto> 5],
           inst_q = 10, inst_p = 0, inst_f = 2,
           inst_Oj = [1 \<mapsto> [1, 2]],
           inst_w = 1 / 2,
           inst_b = [(1, 1) \<mapsto> 1, (2, 1) \<mapsto> 1],
           shift_start = [1 \<mapsto> 1], shift_length = [1 \<mapsto> 2],
           shift_cost_multiplier = [1 \<mapsto> 1],
           paper_expected_objective = Map.empty,
           paper_objective_tolerance = 1 \<rparr>"

text \<open>The same instance with a negative deadline offset, which no check of the validation excludes.\<close>

definition toy_negative_offset :: InstanceData where
  "toy_negative_offset = toy \<lparr> inst_v := [1 \<mapsto> - 1] \<rparr>"

text \<open>An instance with a release-bounded activity (\<open>r = 1\<close>) in place of the deadline-bounded one.\<close>

definition toy_release :: InstanceData where
  "toy_release = toy \<lparr> inst_A1 := [], inst_A2 := [1], inst_v := Map.empty, inst_r := [1 \<mapsto> 1] \<rparr>"

text \<open>Solved values for \<open>toy\<close> with two fractional entries, and the report of their audit.\<close>

definition toy_fractional :: SolvedValues where
  "toy_fractional =
     \<lparr> solved_mode = ''waes'', solved_objective = 15,
       solved_x_aijk = [((1, 1, 1, 1), 3), ((1, 1, 1, 2), 0), ((1, 2, 1, 1), 0), ((1, 2, 1, 2), 2)],
       solved_y_tija = [((1, 1, 1, 1), 3), ((1, 2, 1, 1), 200004 / 100000)],
       solved_y_tj = [((1, 1), 20002 / 10000)],
       solved_status = ''Optimal'', solver_time = None, mip_gap = None, solution_bound = None \<rparr>"

definition toy_fractional_report :: AuditReport where
  "toy_fractional_report =
     \<lparr>passed = False, tolerance = 1 / 10000,
      issues =
       [\<lparr>equation = ''Eq(7)'', detail = ''i=1, j=1, t=1'', violation = 4999 / 5000\<rparr>,
        \<lparr>equation = ''Eq(9)'', detail = ''t=1, j=1'', violation = 24991 / 25000\<rparr>,
        \<lparr>equation = ''Eq(11)'', detail = ''y_tj(1, 1)'', violation = 1 / 5000\<rparr>]\<rparr>"

text \<open>The model the encoder returns for \<open>toy\<close>; only the field \<open>ws_mode\<close> depends on the mode.\<close>

definition toy_model :: "bool \<Rightarrow> WAESModel" where
  "toy_model ws =
     \<lparr> variable_names =
         [''x_a1_i1_j1_k1'', ''x_a1_i1_j1_k2'', ''x_a1_i2_j1_k1'', ''x_a1_i2_j1_k2'',
          ''y_t1_i1_j1_a1'', ''y_t1_i2_j1_a1'', ''y_t1_j1''],
       variable_types = [''I'', ''I'', ''I'', ''I'', ''I'', ''I'', ''I''],
       objective_coeffs = [0, 0, 0, 0, 0, 0, 5],
       variable_lb = [Num 0, Num 0, Num 0, Num 0, Num 0, Num 0, Num 0],
       variable_ub = [Num 10, Num 10, Num 10, Num 10, Num 10, Num 10, Num 10],
       csr_offsets = [0, 1, 2, 4, 7, 9, 11, 12, 13, 16, 17],
       csr_indices = [0, 3, 0, 4, 1, 3, 5, 4, 6, 5, 6, 4, 5, 4, 5, 6, 6],
       csr_values = [1, 1, 1, - 1, 1, 1, - 1, 1, - 1, 1, - 1, 1, 1, 1, 1, - 2, - (1 / 2)],
       constraint_lb = [Num 3, Num 2, NInf, NInf, NInf, NInf, NInf, NInf, NInf, NInf],
       constraint_ub = [Num 3, Num 2, Num 0, Num 0, Num 0, Num 0, Num 10, Num 10, Num 0, Num 0],
       x_aijk = [((1, 1, 1, 1), 0), ((1, 1, 1, 2), 1), ((1, 2, 1, 1), 2), ((1, 2, 1, 2), 3)],
       y_tija = [((1, 1, 1, 1), 4), ((1, 2, 1, 1), 5)],
       y_tj = [((1, 1), 6)],
       ws_mode = ws \<rparr>"

text \<open>
  The toy instance with one interval of postponement (\<open>v = 1\<close>), and the model the encoder
  returns for it in the full mode: the first demand row gains the coefficient of
  \<open>x[1, 1, 1, 2]\<close>. In the baseline mode the encoder returns \<open>toy_model True\<close>.
\<close>

definition toy_postpone :: InstanceData where
  "toy_postpone = toy \<lparr> inst_v := [1 \<mapsto> 1] \<rparr>"

definition toy_postpone_model :: WAESModel where
  "toy_postpone_model =
     (toy_model False)
       \<lparr> csr_offsets := [0, 2, 3, 5, 8, 10, 12, 13, 14, 17, 18],
         csr_indices := [0, 1, 3, 0, 4, 1, 3, 5, 4, 6, 5, 6, 4, 5, 4, 5, 6, 6],
         csr_values := [1, 1, 1, 1, - 1, 1, 1, - 1, 1, - 1, 1, - 1, 1, 1, 1, 1, - 2, - (1 / 2)] \<rparr>"

text \<open>
  A validated instance whose dependent activity 2 lists the parent 3, which is not an
  activity of \<open>A\<close>: \<open>validate_instance\<close> checks that the share \<open>s[(2, 3)]\<close> is present but
  not that the parent is known. \<open>zero_solved\<close> assigns zero to every key of the dense key
  spaces of this instance.
\<close>

definition toy_unknown_parent :: InstanceData where
  "toy_unknown_parent =
     toy \<lparr> inst_A := [1, 2], inst_C := [2], inst_A1 := [1, 2],
           inst_Ga := [2 \<mapsto> [3]], inst_s := [(2, 3) \<mapsto> 1 / 2],
           inst_v := [1 \<mapsto> 0, 2 \<mapsto> 0],
           inst_Ta := [1 \<mapsto> [1], 2 \<mapsto> [1]], inst_Ht := [1 \<mapsto> [1, 2]] \<rparr>"

definition zero_solved :: SolvedValues where
  "zero_solved =
     \<lparr> solved_mode = ''waes'', solved_objective = 0,
       solved_x_aijk = [((1, 1, 1, 1), 0), ((1, 1, 1, 2), 0), ((1, 2, 1, 1), 0), ((1, 2, 1, 2), 0),
                        ((2, 1, 1, 1), 0), ((2, 1, 1, 2), 0), ((2, 2, 1, 1), 0), ((2, 2, 1, 2), 0)],
       solved_y_tija = [((1, 1, 1, 1), 0), ((1, 1, 1, 2), 0), ((1, 2, 1, 1), 0), ((1, 2, 1, 2), 0)],
       solved_y_tj = [((1, 1), 0)],
       solved_status = ''Optimal'', solver_time = None, mip_gap = None, solution_bound = None \<rparr>"

text \<open>
  Solved values for \<open>toy\<close> that satisfy every row of its model, with the solution vector
  they are unpacked from.
\<close>

definition toy_vector :: "rat list" where
  "toy_vector = [3, 0, 0, 2, 3, 2, 3]"

definition toy_solved :: SolvedValues where
  "toy_solved =
     \<lparr> solved_mode = ''waes'', solved_objective = 15,
       solved_x_aijk = [((1, 1, 1, 1), 3), ((1, 1, 1, 2), 0), ((1, 2, 1, 1), 0), ((1, 2, 1, 2), 2)],
       solved_y_tija = [((1, 1, 1, 1), 3), ((1, 2, 1, 1), 2)],
       solved_y_tj = [((1, 1), 3)],
       solved_status = ''Optimal'', solver_time = None, mip_gap = None, solution_bound = None \<rparr>"

text \<open>
  An instance with one interval, an independent activity 1 with demand \<open>10\<^sup>1\<^sup>0\<close> and a
  dependent activity 2 whose share of activity 1 is \<open>10\<^sup>-\<^sup>1\<^sup>3\<close>, below the threshold of
  \<^verbatim>\<open>add_row\<close>; the model the encoder returns for it, whose row of Eq. (4) has lost the
  parent's coefficient; and integer solved values that satisfy every row of that model.
\<close>

definition tiny_share :: InstanceData where
  "tiny_share =
     \<lparr> inst_name = ''tiny_share'', inst_n = 1, inst_N = [1],
       inst_M1 = [1], inst_M2 = [], inst_M = [1],
       inst_A = [1, 2], inst_B = [1], inst_C = [2], inst_A1 = [1, 2], inst_A2 = [],
       inst_T = [1],
       inst_Ga = [2 \<mapsto> [1]],
       inst_d = [(1, 1) \<mapsto> 10000000000],
       inst_s = [(2, 1) \<mapsto> 1 / 10 ^ 13],
       inst_v = [1 \<mapsto> 0, 2 \<mapsto> 0],
       inst_r = Map.empty,
       inst_Ta = [1 \<mapsto> [1], 2 \<mapsto> [1]],
       inst_Ht = [1 \<mapsto> [1, 2]],
       inst_c = [1 \<mapsto> 5],
       inst_q = 10000000000, inst_p = 0, inst_f = 1,
       inst_Oj = [1 \<mapsto> [1]],
       inst_w = 1 / 2,
       inst_b = [(1, 1) \<mapsto> 1],
       shift_start = [1 \<mapsto> 1], shift_length = [1 \<mapsto> 1],
       shift_cost_multiplier = [1 \<mapsto> 1],
       paper_expected_objective = Map.empty,
       paper_objective_tolerance = 1 \<rparr>"

definition tiny_share_model :: WAESModel where
  "tiny_share_model =
     \<lparr> variable_names =
         [''x_a1_i1_j1_k1'', ''x_a2_i1_j1_k1'', ''y_t1_i1_j1_a1'', ''y_t1_i1_j1_a2'', ''y_t1_j1''],
       variable_types = [''I'', ''I'', ''I'', ''I'', ''I''],
       objective_coeffs = [0, 0, 0, 0, 5],
       variable_lb = [Num 0, Num 0, Num 0, Num 0, Num 0],
       variable_ub = [Num 10000000000, Num 10000000000, Num 10000000000, Num 10000000000,
                      Num 10000000000],
       csr_offsets = [0, 1, 2, 4, 6, 9, 11, 14, 15],
       csr_indices = [0, 1, 0, 2, 1, 3, 2, 3, 4, 2, 3, 2, 3, 4, 4],
       csr_values = [1, 1, 1, - 1, 1, - 1, 1, 1, - 1, 1, 1, 1, 1, - 1, - (1 / 2)],
       constraint_lb = [Num 10000000000, Num 0, NInf, NInf, NInf, NInf, NInf, NInf],
       constraint_ub = [Num 10000000000, Inf, Num 0, Num 0, Num 0, Num 10000000000, Num 0, Num 0],
       x_aijk = [((1, 1, 1, 1), 0), ((2, 1, 1, 1), 1)],
       y_tija = [((1, 1, 1, 1), 2), ((1, 1, 1, 2), 3)],
       y_tj = [((1, 1), 4)],
       ws_mode = False \<rparr>"

definition tiny_share_vector :: "rat list" where
  "tiny_share_vector = [10000000000, 0, 10000000000, 0, 10000000000]"

definition tiny_share_solved :: SolvedValues where
  "tiny_share_solved =
     \<lparr> solved_mode = ''waes'', solved_objective = 50000000000,
       solved_x_aijk = [((1, 1, 1, 1), 10000000000), ((2, 1, 1, 1), 0)],
       solved_y_tija = [((1, 1, 1, 1), 10000000000), ((1, 1, 1, 2), 0)],
       solved_y_tj = [((1, 1), 10000000000)],
       solved_status = ''Optimal'', solver_time = None, mip_gap = None, solution_bound = None \<rparr>"

section \<open>Facts about the example instances\<close>

lemma upto_1_2: "[1 .. 2 :: int] = [1, 2]"
  by (simp add: upto_rec1)

lemma toy_valid: "validate_instance toy"
  by (simp add: validate_instance_def toy_def get_or_empty_def upto_1_2)

lemma toy_negative_offset_valid: "validate_instance toy_negative_offset"
  by (simp add: validate_instance_def toy_negative_offset_def toy_def get_or_empty_def upto_1_2)

lemma toy_release_valid: "validate_instance toy_release"
  by (simp add: validate_instance_def toy_release_def toy_def get_or_empty_def upto_1_2)

lemma toy_build_waes: "build_waes_model toy False = Some (toy_model False)"
  by code_simp

lemma toy_build_ws: "build_ws_model toy = Some (toy_model True)"
  by code_simp

lemma toy_postpone_valid: "validate_instance toy_postpone"
  by (simp add: validate_instance_def toy_postpone_def toy_def get_or_empty_def upto_1_2)

lemma toy_postpone_build_waes: "build_waes_model toy_postpone False = Some toy_postpone_model"
  by code_simp

lemma toy_postpone_build_ws: "build_ws_model toy_postpone = Some (toy_model True)"
  by code_simp

lemma toy_unknown_parent_valid: "validate_instance toy_unknown_parent"
  by (auto simp: validate_instance_def toy_unknown_parent_def toy_def get_or_empty_def upto_1_2)

lemma zero_solved_dense:
  "fst ` set (solved_x_aijk zero_solved) = x_keys toy_unknown_parent \<and>
   fst ` set (solved_y_tija zero_solved) = y_tija_keys toy_unknown_parent \<and>
   fst ` set (solved_y_tj zero_solved) = y_tj_keys toy_unknown_parent"
  by (auto simp: zero_solved_def x_keys_def y_tija_keys_def y_tj_keys_def toy_unknown_parent_def toy_def)

lemma toy_build_exact: "build_waes_model_thr 0 toy False = Some (toy_model False)"
  by code_simp

lemma toy_solved_linked: "linked (toy_model False) toy_solved toy_vector"
  by code_simp

lemma toy_solved_rows: "rows_satisfied (toy_model False) toy_vector"
  by code_simp

lemma toy_solved_integer: "integer_valued toy_solved"
  by (simp add: integer_valued_def toy_solved_def)

lemma tiny_share_valid: "validate_instance tiny_share"
  by (auto simp: validate_instance_def tiny_share_def get_or_empty_def)

lemma tiny_share_build: "build_waes_model tiny_share False = Some tiny_share_model"
  by code_simp

lemma tiny_share_linked: "linked tiny_share_model tiny_share_solved tiny_share_vector"
  by code_simp

lemma tiny_share_rows: "rows_satisfied tiny_share_model tiny_share_vector"
  by code_simp

lemma tiny_share_integer: "integer_valued tiny_share_solved"
  by (simp add: integer_valued_def tiny_share_solved_def)

lemma tiny_share_audit:
  "run_audits tiny_share tiny_share_solved False default_tol =
     Some \<lparr>passed = False, tolerance = 1 / 10000,
            issues = [\<lparr>equation = ''Eq(4)'', detail = ''k=1, a=2'', violation = 1 / 1000\<rparr>]\<rparr>"
  by code_simp

section \<open>Loops: general facts\<close>

lemma for_loop_append:
  "for_loop f (xs @ ys) s = (case for_loop f xs s of None \<Rightarrow> None | Some s' \<Rightarrow> for_loop f ys s')"
  by (induction xs arbitrary: s) (auto split: option.splits)

lemma for_loop_preserves:
  assumes "for_loop f xs s = Some s'"
    and "\<And>x s s'. x \<in> set xs \<Longrightarrow> f x s = Some s' \<Longrightarrow> g s' = g s"
  shows "g s' = g s"
  using assms
proof (induction xs arbitrary: s)
  case Nil
  then show ?case by simp
next
  case (Cons x xs)
  from Cons.prems(1) obtain s1 where s1: "f x s = Some s1" and rest: "for_loop f xs s1 = Some s'"
    by (auto split: option.splits)
  have "g s' = g s1" using rest Cons.prems(2) by (intro Cons.IH) auto
  moreover have "g s1 = g s" by (rule Cons.prems(2) [OF _ s1]) simp
  ultimately show ?case by simp
qed

lemma for_loop_invariant:
  assumes "for_loop f xs s = Some s'" and "P s"
    and "\<And>x s s'. x \<in> set xs \<Longrightarrow> P s \<Longrightarrow> f x s = Some s' \<Longrightarrow> P s'"
  shows "P s'"
  using assms
proof (induction xs arbitrary: s)
  case Nil
  then show ?case by simp
next
  case (Cons x xs)
  from Cons.prems(1) obtain s1 where s1: "f x s = Some s1" and rest: "for_loop f xs s1 = Some s'"
    by (auto split: option.splits)
  have "P s1" by (rule Cons.prems(3) [OF _ Cons.prems(2) s1]) simp
  then show ?case using rest Cons.prems(3) by (intro Cons.IH) auto
qed

section \<open>Folds, dictionaries and the variable catalog\<close>

lemma fold_invariant:
  assumes "P s" and "\<And>x s. x \<in> set xs \<Longrightarrow> P s \<Longrightarrow> P (f x s)"
  shows "P (fold f xs s)"
  using assms by (induction xs arbitrary: s) auto

lemma fold_union:
  assumes "\<And>x s. x \<in> set xs \<Longrightarrow> K (f x s) = K s \<union> G x"
  shows "K (fold f xs s) = K s \<union> (\<Union>x \<in> set xs. G x)"
  using assms by (induction xs arbitrary: s) auto

lemma for_loop_union:
  assumes "for_loop f xs s = Some s'"
    and "\<And>x s s'. x \<in> set xs \<Longrightarrow> f x s = Some s' \<Longrightarrow> K s' = K s \<union> G x"
  shows "K s' = K s \<union> (\<Union>x \<in> set xs. G x)"
  using assms
proof (induction xs arbitrary: s)
  case Nil
  then show ?case by simp
next
  case (Cons x xs)
  from Cons.prems(1) obtain s1 where s1: "f x s = Some s1" and rest: "for_loop f xs s1 = Some s'"
    by (auto split: option.splits)
  have "K s' = K s1 \<union> (\<Union>x \<in> set xs. G x)" using rest Cons.prems(2) by (intro Cons.IH) auto
  moreover have "K s1 = K s \<union> G x" by (rule Cons.prems(2) [OF _ s1]) simp
  ultimately show ?case by auto
qed

lemma dict_set_entriesD:
  "(k', v') \<in> set (dict_set d k v) \<Longrightarrow> (k' = k \<and> v' = v) \<or> (k', v') \<in> set d"
proof (induction d)
  case Nil
  then show ?case by simp
next
  case (Cons p d)
  obtain k0 v0 where p: "p = (k0, v0)" by (cases p)
  from Cons show ?case unfolding p by (cases "k0 = k") auto
qed

lemma dict_set_keys: "fst ` set (dict_set d k v) = insert k (fst ` set d)"
proof (induction d)
  case Nil
  show ?case by simp
next
  case (Cons p d)
  obtain k0 v0 where p: "p = (k0, v0)" by (cases p)
  from Cons.IH show ?case unfolding p by (cases "k0 = k") auto
qed

lemma dict_set_distinct_keys: "distinct (map fst d) \<Longrightarrow> distinct (map fst (dict_set d k v))"
proof (induction d)
  case Nil
  show ?case by simp
next
  case (Cons p d)
  obtain k0 v0 where p: "p = (k0, v0)" by (cases p)
  from Cons show ?case unfolding p by (cases "k0 = k") (auto simp: dict_set_keys)
qed

lemma dict_set_has_entry: "(k, v) \<in> set (dict_set d k v)"
proof (induction d)
  case Nil
  show ?case by simp
next
  case (Cons p d)
  obtain k0 v0 where p: "p = (k0, v0)" by (cases p)
  from Cons.IH show ?case unfolding p by (cases "k0 = k") auto
qed

lemma dict_lookup_Some_mem: "dict_lookup d k = Some v \<Longrightarrow> (k, v) \<in> set d"
  by (simp add: dict_lookup_def map_of_SomeD)

lemma dict_lookup_mem: "distinct (map fst d) \<Longrightarrow> (k, v) \<in> set d \<Longrightarrow> dict_lookup d k = Some v"
  by (simp add: dict_lookup_def)

lemma dict_lookup_None_iff: "dict_lookup d k = None \<longleftrightarrow> k \<notin> fst ` set d"
  by (simp add: dict_lookup_def map_of_eq_None_iff)

lemma indices_below_set: "indices_below d n \<Longrightarrow> indices_below (dict_set d k n) (Suc n)"
  by (auto simp: indices_below_def dest!: dict_set_entriesD)

lemma indices_below_Suc: "indices_below d n \<Longrightarrow> indices_below d (Suc n)"
  by (auto simp: indices_below_def)

lemma indices_inj_set: "indices_below d n \<Longrightarrow> indices_inj d \<Longrightarrow> indices_inj (dict_set d k n)"
  by (fastforce simp: indices_below_def indices_inj_def dest!: dict_set_entriesD)

lemma indices_apart_set_left:
  "indices_below e n \<Longrightarrow> indices_apart d e \<Longrightarrow> indices_apart (dict_set d k n) e"
  by (fastforce simp: indices_below_def indices_apart_def dest!: dict_set_entriesD)

lemma indices_apart_set_right:
  "indices_below d n \<Longrightarrow> indices_apart d e \<Longrightarrow> indices_apart d (dict_set e k n)"
  by (fastforce simp: indices_below_def indices_apart_def dest!: dict_set_entriesD)

lemmas catalog_steps = indices_below_set indices_below_Suc indices_inj_set indices_apart_set_left
  indices_apart_set_right dict_set_distinct_keys

lemma catalog_ok_empty: "catalog_ok (empty_model ws)"
  by (simp add: catalog_ok_def empty_model_def indices_below_def indices_inj_def indices_apart_def)

lemma x_step_catalog:
  assumes "catalog_ok m"
  shows "catalog_ok (let (idx, m) = add_var name obj lb ub vtype m
                      in m \<lparr> x_aijk := dict_set (x_aijk m) key idx \<rparr>)"
  using assms by (simp add: catalog_ok_def add_var_def catalog_steps)

lemma y_tija_step_catalog:
  assumes "catalog_ok m"
  shows "catalog_ok (let (idx, m) = add_var name obj lb ub vtype m
                      in m \<lparr> y_tija := dict_set (y_tija m) key idx \<rparr>)"
  using assms by (simp add: catalog_ok_def add_var_def catalog_steps)

lemma y_tj_step_catalog:
  assumes "catalog_ok m"
  shows "catalog_ok (let (idx, m) = add_var name obj lb ub vtype m
                      in m \<lparr> y_tj := dict_set (y_tj m) key idx \<rparr>)"
  using assms by (simp add: catalog_ok_def add_var_def catalog_steps)

lemma fold4_invariant:
  assumes "P s" and "\<And>a b c d s. P s \<Longrightarrow> P (f a b c d s)"
  shows "P (fold (\<lambda>a. fold (\<lambda>b. fold (\<lambda>c. fold (f a b c) ds) cs) bs) as s)"
  using assms(1)
proof (rule fold_invariant [where P = P])
  fix a s assume "P s"
  then show "P (fold (\<lambda>b. fold (\<lambda>c. fold (f a b c) ds) cs) bs s)"
  proof (rule fold_invariant [where P = P])
    fix b s assume "P s"
    then show "P (fold (\<lambda>c. fold (f a b c) ds) cs s)"
    proof (rule fold_invariant [where P = P])
      fix c s assume "P s"
      then show "P (fold (f a b c) ds s)"
        by (rule fold_invariant [where P = P]) (rule assms(2))
    qed
  qed
qed

lemma create_x_catalog: "catalog_ok m \<Longrightarrow> catalog_ok (create_x inst m)"
  unfolding create_x_def
  by (rule fold4_invariant [where P = catalog_ok], assumption) (erule x_step_catalog)

lemma create_y_tija_catalog: "catalog_ok m \<Longrightarrow> catalog_ok (create_y_tija inst m)"
  unfolding create_y_tija_def
  by (rule fold4_invariant [where P = catalog_ok], assumption) (erule y_tija_step_catalog)

lemma y_tj_step_catalog':
  assumes "(let (idx, m) = add_var name obj lb ub vtype m
            in Some (m \<lparr> y_tj := dict_set (y_tj m) key idx \<rparr>)) = Some m'"
    and "catalog_ok m"
  shows "catalog_ok m'"
  using assms by (auto simp: catalog_ok_def add_var_def catalog_steps)

lemma create_y_tj_catalog:
  assumes "create_y_tj inst m = Some m'" and "catalog_ok m"
  shows "catalog_ok m'"
  using assms unfolding create_y_tj_def
  by (elim for_loop_invariant [where P = catalog_ok])
    (auto simp: bind_eq_Some_conv add_var_def catalog_ok_def catalog_steps)

lemma objective_ok_empty: "objective_ok inst (empty_model ws)"
  by (simp add: objective_ok_def empty_model_def)

lemma x_step_objective:
  assumes "catalog_ok m \<and> objective_ok inst m"
  shows "objective_ok inst (let (idx, m) = add_var name 0 lb ub vtype m
                            in m \<lparr> x_aijk := dict_set (x_aijk m) key idx \<rparr>)"
  using assms
  by (fastforce simp: catalog_ok_def objective_ok_def add_var_def indices_below_def nth_append
      dest!: dict_set_entriesD)

lemma y_tija_step_objective:
  assumes "catalog_ok m \<and> objective_ok inst m"
  shows "objective_ok inst (let (idx, m) = add_var name 0 lb ub vtype m
                            in m \<lparr> y_tija := dict_set (y_tija m) key idx \<rparr>)"
  using assms
  by (fastforce simp: catalog_ok_def objective_ok_def add_var_def indices_below_def nth_append
      dest!: dict_set_entriesD)

lemma y_tj_step_objective:
  assumes "catalog_ok m \<and> objective_ok inst m"
    and "inst_c inst t = Some cost" and "shift_cost_multiplier inst j = Some mult"
  shows "objective_ok inst (let (idx, m) = add_var name (cost * mult) lb ub vtype m
                            in m \<lparr> y_tj := dict_set (y_tj m) (t, j) idx \<rparr>)"
  using assms
  by (fastforce simp: catalog_ok_def objective_ok_def add_var_def indices_below_def nth_append
      dest!: dict_set_entriesD)

lemma create_x_objective:
  "catalog_ok m \<and> objective_ok inst m \<Longrightarrow>
   catalog_ok (create_x inst m) \<and> objective_ok inst (create_x inst m)"
  unfolding create_x_def
  by (rule fold4_invariant [where P = "\<lambda>m. catalog_ok m \<and> objective_ok inst m"], assumption)
     (blast intro: x_step_catalog x_step_objective)

lemma create_y_tija_objective:
  "catalog_ok m \<and> objective_ok inst m \<Longrightarrow>
   catalog_ok (create_y_tija inst m) \<and> objective_ok inst (create_y_tija inst m)"
  unfolding create_y_tija_def
  by (rule fold4_invariant [where P = "\<lambda>m. catalog_ok m \<and> objective_ok inst m"], assumption)
     (blast intro: y_tija_step_catalog y_tija_step_objective)

lemma for_loop2_invariant:
  assumes "for_loop (\<lambda>a. for_loop (f a) bs) as s = Some s'" and "P s"
    and "\<And>a b s s'. a \<in> set as \<Longrightarrow> b \<in> set bs \<Longrightarrow> P s \<Longrightarrow> f a b s = Some s' \<Longrightarrow> P s'"
  shows "P s'"
  using assms(1,2)
proof (rule for_loop_invariant)
  fix a s s' assume a: "a \<in> set as" and s: "P s" and run: "for_loop (f a) bs s = Some s'"
  from run s show "P s'"
    by (rule for_loop_invariant) (rule assms(3) [OF a])
qed

lemma for_loop3_invariant:
  assumes "for_loop (\<lambda>a. for_loop (\<lambda>b. for_loop (f a b) cs) bs) as s = Some s'" and "P s"
    and "\<And>a b c s s'. a \<in> set as \<Longrightarrow> b \<in> set bs \<Longrightarrow> c \<in> set cs \<Longrightarrow> P s \<Longrightarrow>
           f a b c s = Some s' \<Longrightarrow> P s'"
  shows "P s'"
  using assms(1,2)
proof (rule for_loop_invariant)
  fix a s s' assume a: "a \<in> set as" and s: "P s"
    and run: "for_loop (\<lambda>b. for_loop (f a b) cs) bs s = Some s'"
  from run s show "P s'"
    by (rule for_loop2_invariant) (rule assms(3) [OF a])
qed

lemma create_y_tj_objective:
  assumes "create_y_tj inst m = Some m'" and "catalog_ok m \<and> objective_ok inst m"
  shows "catalog_ok m' \<and> objective_ok inst m'"
  using assms unfolding create_y_tj_def
proof (rule for_loop2_invariant)
  fix t j s s'
  assume inv: "catalog_ok s \<and> objective_ok inst s"
    and step: "do {
         cost \<leftarrow> inst_c inst t;
         mult \<leftarrow> shift_cost_multiplier inst j;
         let (idx, m) = add_var (''y_t'' @ str_int t @ ''_j'' @ str_int j)
                          (cost * mult) (Num 0) (Num (of_int (inst_q inst))) ''I'' s;
         Some (m \<lparr> y_tj := dict_set (y_tj m) (t, j) idx \<rparr>)
       } = Some s'"
  from step obtain cost mult where c: "inst_c inst t = Some cost"
    and ml: "shift_cost_multiplier inst j = Some mult"
    and s': "s' = (let (idx, m) = add_var (''y_t'' @ str_int t @ ''_j'' @ str_int j) (cost * mult)
                        (Num 0) (Num (of_int (inst_q inst))) ''I'' s
                     in m \<lparr> y_tj := dict_set (y_tj m) (t, j) idx \<rparr>)"
    by (auto simp: bind_eq_Some_conv add_var_def)
  show "catalog_ok s' \<and> objective_ok inst s'" unfolding s'
    using y_tj_step_catalog [of s] y_tj_step_objective [OF inv c ml] inv by blast
qed

lemma fold4_union:
  assumes "\<And>a b c d s. K (f a b c d s) = insert (g a b c d) (K s)"
  shows "K (fold (\<lambda>a. fold (\<lambda>b. fold (\<lambda>c. fold (f a b c) ds) cs) bs) as s) =
         K s \<union> {g a b c d | a b c d. a \<in> set as \<and> b \<in> set bs \<and> c \<in> set cs \<and> d \<in> set ds}"
proof -
  have l1: "K (fold (f a b c) ds s) = K s \<union> (\<Union>d \<in> set ds. {g a b c d})" for a b c s
    by (rule fold_union) (simp add: assms)
  have l2: "K (fold (\<lambda>c. fold (f a b c) ds) cs s) =
            K s \<union> (\<Union>c \<in> set cs. \<Union>d \<in> set ds. {g a b c d})" for a b s
    by (rule fold_union) (rule l1)
  have l3: "K (fold (\<lambda>b. fold (\<lambda>c. fold (f a b c) ds) cs) bs s) =
            K s \<union> (\<Union>b \<in> set bs. \<Union>c \<in> set cs. \<Union>d \<in> set ds. {g a b c d})" for a s
    by (rule fold_union) (rule l2)
  have "K (fold (\<lambda>a. fold (\<lambda>b. fold (\<lambda>c. fold (f a b c) ds) cs) bs) as s) =
        K s \<union> (\<Union>a \<in> set as. \<Union>b \<in> set bs. \<Union>c \<in> set cs. \<Union>d \<in> set ds. {g a b c d})"
    by (rule fold_union) (rule l3)
  also have "(\<Union>a \<in> set as. \<Union>b \<in> set bs. \<Union>c \<in> set cs. \<Union>d \<in> set ds. {g a b c d}) =
             {g a b c d | a b c d. a \<in> set as \<and> b \<in> set bs \<and> c \<in> set cs \<and> d \<in> set ds}"
    by auto
  finally show ?thesis .
qed

lemma for_loop2_union:
  assumes "for_loop (\<lambda>a. for_loop (f a) bs) as s = Some s'"
    and "\<And>a b s s'. f a b s = Some s' \<Longrightarrow> K s' = insert (g a b) (K s)"
  shows "K s' = K s \<union> {g a b | a b. a \<in> set as \<and> b \<in> set bs}"
proof -
  have l1: "K s' = K s \<union> (\<Union>b \<in> set bs. {g a b})" if "for_loop (f a) bs s = Some s'" for a s s'
    using that by (rule for_loop_union) (simp add: assms(2))
  have "K s' = K s \<union> (\<Union>a \<in> set as. \<Union>b \<in> set bs. {g a b})"
    using assms(1) by (rule for_loop_union) (rule l1)
  also have "(\<Union>a \<in> set as. \<Union>b \<in> set bs. {g a b}) = {g a b | a b. a \<in> set as \<and> b \<in> set bs}"
    by auto
  finally show ?thesis .
qed

lemma fold4_preserves:
  assumes "\<And>a b c d s. g (f a b c d s) = g s"
  shows "g (fold (\<lambda>a. fold (\<lambda>b. fold (\<lambda>c. fold (f a b c) ds) cs) bs) as s) = g s"
  by (rule fold4_invariant [where P = "\<lambda>s'. g s' = g s"]) (simp_all add: assms)

lemma create_x_keys:
  "fst ` set (x_aijk (create_x inst m)) =
   fst ` set (x_aijk m) \<union>
   {(a, i, j, k) | a i j k. a \<in> set (inst_A inst) \<and> i \<in> set (inst_N inst) \<and>
                           j \<in> set (inst_M inst) \<and> k \<in> set (inst_N inst)}"
  unfolding create_x_def
  by (rule fold4_union [where K = "\<lambda>m. fst ` set (x_aijk m)"]) (simp add: add_var_def dict_set_keys)

lemma create_x_frame:
  "y_tija (create_x inst m) = y_tija m \<and> y_tj (create_x inst m) = y_tj m \<and>
   csr_of (create_x inst m) = csr_of m"
proof -
  have "(\<lambda>m. (y_tija m, y_tj m, csr_of m)) (create_x inst m) = (\<lambda>m. (y_tija m, y_tj m, csr_of m)) m"
    unfolding create_x_def by (rule fold4_preserves) (simp add: add_var_def csr_of_def)
  then show ?thesis by simp
qed

lemma create_y_tija_keys:
  "fst ` set (y_tija (create_y_tija inst m)) =
   fst ` set (y_tija m) \<union>
   {(t, i, j, a) | t i j a. t \<in> set (inst_T inst) \<and> i \<in> set (inst_N inst) \<and>
                           j \<in> set (inst_M inst) \<and> a \<in> set (inst_A inst)}"
  unfolding create_y_tija_def
  by (rule fold4_union [where K = "\<lambda>m. fst ` set (y_tija m)"]) (simp add: add_var_def dict_set_keys)

lemma create_y_tija_frame:
  "x_aijk (create_y_tija inst m) = x_aijk m \<and> y_tj (create_y_tija inst m) = y_tj m \<and>
   csr_of (create_y_tija inst m) = csr_of m"
proof -
  have "(\<lambda>m. (x_aijk m, y_tj m, csr_of m)) (create_y_tija inst m) = (\<lambda>m. (x_aijk m, y_tj m, csr_of m)) m"
    unfolding create_y_tija_def by (rule fold4_preserves) (simp add: add_var_def csr_of_def)
  then show ?thesis by simp
qed

lemma create_y_tj_keys:
  assumes "create_y_tj inst m = Some m'"
  shows "fst ` set (y_tj m') =
         fst ` set (y_tj m) \<union> {(t, j) | t j. t \<in> set (inst_T inst) \<and> j \<in> set (inst_M inst)}"
  using assms unfolding create_y_tj_def
  by (rule for_loop2_union [where K = "\<lambda>m. fst ` set (y_tj m)"])
     (clarsimp simp: bind_eq_Some_conv add_var_def dict_set_keys)

lemma create_y_tj_frame:
  assumes "create_y_tj inst m = Some m'"
  shows "x_aijk m' = x_aijk m \<and> y_tija m' = y_tija m \<and> csr_of m' = csr_of m"
  using assms unfolding create_y_tj_def
  by (rule for_loop2_invariant [where P = "\<lambda>s. x_aijk s = x_aijk m \<and> y_tija s = y_tija m \<and> csr_of s = csr_of m"])
     (auto simp: bind_eq_Some_conv add_var_def csr_of_def)

lemma create_variables_facts:
  assumes "create_variables inst ws = Some m"
  shows "catalog_ok m" and "objective_ok inst m"
    and "fst ` set (x_aijk m) =
           {(a, i, j, k) | a i j k. a \<in> set (inst_A inst) \<and> i \<in> set (inst_N inst) \<and>
                                   j \<in> set (inst_M inst) \<and> k \<in> set (inst_N inst)}"
    and "fst ` set (y_tija m) =
           {(t, i, j, a) | t i j a. t \<in> set (inst_T inst) \<and> i \<in> set (inst_N inst) \<and>
                                   j \<in> set (inst_M inst) \<and> a \<in> set (inst_A inst)}"
    and "fst ` set (y_tj m) = {(t, j) | t j. t \<in> set (inst_T inst) \<and> j \<in> set (inst_M inst)}"
    and "csr_of m = ([0], [], [], [], [])"
proof -
  let ?m0 = "empty_model ws"
  let ?m1 = "create_x inst ?m0"
  let ?m2 = "create_y_tija inst ?m1"
  from assms have run: "create_y_tj inst ?m2 = Some m" by (simp add: create_variables_def)
  have "catalog_ok ?m0 \<and> objective_ok inst ?m0" by (simp add: catalog_ok_empty objective_ok_empty)
  then have "catalog_ok ?m2 \<and> objective_ok inst ?m2"
    by (intro create_y_tija_objective create_x_objective)
  with run have "catalog_ok m \<and> objective_ok inst m" by (rule create_y_tj_objective)
  then show "catalog_ok m" and "objective_ok inst m" by simp_all
  have e: "x_aijk ?m0 = []" "y_tija ?m0 = []" "y_tj ?m0 = []" "csr_of ?m0 = ([0], [], [], [], [])"
    by (simp_all add: empty_model_def csr_of_def)
  note f1 = create_x_frame [of inst ?m0] and f2 = create_y_tija_frame [of inst ?m1]
    and f3 = create_y_tj_frame [OF run]
  show "fst ` set (x_aijk m) =
           {(a, i, j, k) | a i j k. a \<in> set (inst_A inst) \<and> i \<in> set (inst_N inst) \<and>
                                   j \<in> set (inst_M inst) \<and> k \<in> set (inst_N inst)}"
    using f2 f3 create_x_keys [of inst ?m0] by (simp add: e)
  show "fst ` set (y_tija m) =
           {(t, i, j, a) | t i j a. t \<in> set (inst_T inst) \<and> i \<in> set (inst_N inst) \<and>
                                   j \<in> set (inst_M inst) \<and> a \<in> set (inst_A inst)}"
    using f1 f3 create_y_tija_keys [of inst ?m1] by (simp add: e)
  show "fst ` set (y_tj m) = {(t, j) | t j. t \<in> set (inst_T inst) \<and> j \<in> set (inst_M inst)}"
    using f1 f2 create_y_tj_keys [OF run] by (simp add: e)
  show "csr_of m = ([0], [], [], [], [])"
    using f1 f2 f3 by (simp add: e)
qed

lemma create_variables_keys:
  assumes "create_variables inst ws = Some m"
  shows "fst ` set (x_aijk m) = x_keys inst" and "fst ` set (y_tija m) = y_tija_keys inst"
    and "fst ` set (y_tj m) = y_tj_keys inst"
  unfolding create_variables_facts(3-5) [OF assms] x_keys_def y_tija_keys_def y_tj_keys_def
  by auto

lemma for_loop2_preserves:
  assumes "for_loop (\<lambda>a. for_loop (f a) bs) as s = Some s'"
    and "\<And>a b s s'. a \<in> set as \<Longrightarrow> b \<in> set bs \<Longrightarrow> f a b s = Some s' \<Longrightarrow> g s' = g s"
  shows "g s' = g s"
  using assms(1)
  by (rule for_loop2_invariant [where P = "\<lambda>s'. g s' = g s"]) (simp_all add: assms(2))

lemma for_loop3_preserves:
  assumes "for_loop (\<lambda>a. for_loop (\<lambda>b. for_loop (f a b) cs) bs) as s = Some s'"
    and "\<And>a b c s s'. a \<in> set as \<Longrightarrow> b \<in> set bs \<Longrightarrow> c \<in> set cs \<Longrightarrow> f a b c s = Some s' \<Longrightarrow> g s' = g s"
  shows "g s' = g s"
  using assms(1)
  by (rule for_loop3_invariant [where P = "\<lambda>s'. g s' = g s"]) (simp_all add: assms(2))

lemma add_row_catalog [simp]: "catalog_of (add_row thr coeffs lb ub m) = catalog_of m"
  by (simp add: add_row_def catalog_of_def Let_def)

lemma eq2_rows_catalog: "eq2_rows thr inst ws m = Some m' \<Longrightarrow> catalog_of m' = catalog_of m"
  unfolding eq2_rows_def by (erule for_loop2_preserves) (auto simp: bind_eq_Some_conv)

lemma eq3_rows_catalog: "eq3_rows thr inst ws m = Some m' \<Longrightarrow> catalog_of m' = catalog_of m"
  unfolding eq3_rows_def by (erule for_loop2_preserves) (auto simp: bind_eq_Some_conv)

lemma eq4_rows_catalog: "eq4_rows thr inst ws m = Some m' \<Longrightarrow> catalog_of m' = catalog_of m"
  unfolding eq4_rows_def by (erule for_loop2_preserves) (auto simp: bind_eq_Some_conv)

lemma eq5_rows_catalog: "eq5_rows thr inst ws m = Some m' \<Longrightarrow> catalog_of m' = catalog_of m"
  unfolding eq5_rows_def by (erule for_loop2_preserves) (auto simp: bind_eq_Some_conv)

lemma eq6_rows_catalog: "eq6_rows thr inst m = Some m' \<Longrightarrow> catalog_of m' = catalog_of m"
  unfolding eq6_rows_def by (erule for_loop3_preserves) (auto simp: bind_eq_Some_conv)

lemma eq7_rows_catalog: "eq7_rows thr inst m = Some m' \<Longrightarrow> catalog_of m' = catalog_of m"
  unfolding eq7_rows_def by (erule for_loop3_preserves) (auto simp: bind_eq_Some_conv)

lemma eq8_rows_catalog: "eq8_rows thr inst m = Some m' \<Longrightarrow> catalog_of m' = catalog_of m"
  unfolding eq8_rows_def by (erule for_loop_preserves) (auto simp: bind_eq_Some_conv)

lemma eq9_rows_catalog: "eq9_rows thr inst m = Some m' \<Longrightarrow> catalog_of m' = catalog_of m"
  unfolding eq9_rows_def by (erule for_loop2_preserves) (auto simp: bind_eq_Some_conv)

lemma eq10_row_catalog: "eq10_row thr inst m = Some m' \<Longrightarrow> catalog_of m' = catalog_of m"
  unfolding eq10_row_def by (auto simp: bind_eq_Some_conv)

lemma build_catalog:
  assumes "build_waes_model_thr thr inst ws = Some m"
  shows "\<exists>m0. create_variables inst ws = Some m0 \<and> catalog_of m = catalog_of m0"
  using assms unfolding build_waes_model_thr_def
  by (auto simp: bind_eq_Some_conv dest!: eq2_rows_catalog eq3_rows_catalog eq4_rows_catalog
      eq5_rows_catalog eq6_rows_catalog eq7_rows_catalog eq8_rows_catalog eq9_rows_catalog
      eq10_row_catalog)

lemma catalog_of_cong:
  assumes "catalog_of m = catalog_of m0"
  shows "catalog_ok m = catalog_ok m0" and "objective_ok inst m = objective_ok inst m0"
    and "x_aijk m = x_aijk m0" and "y_tija m = y_tija m0" and "y_tj m = y_tj m0"
    and "objective_coeffs m = objective_coeffs m0" and "variable_names m = variable_names m0"
  using assms by (simp_all add: catalog_of_def catalog_ok_def objective_ok_def)

lemma build_facts:
  assumes "build_waes_model_thr thr inst ws = Some m"
  shows "catalog_ok m" and "objective_ok inst m"
    and "fst ` set (x_aijk m) = x_keys inst" and "fst ` set (y_tija m) = y_tija_keys inst"
    and "fst ` set (y_tj m) = y_tj_keys inst"
proof -
  from build_catalog [OF assms] obtain m0 where
    m0: "create_variables inst ws = Some m0" and eq: "catalog_of m = catalog_of m0" by blast
  note c = catalog_of_cong [OF eq]
  show "catalog_ok m" using create_variables_facts(1) [OF m0] c(1) by simp
  show "objective_ok inst m" using create_variables_facts(2) [OF m0] c(2) by simp
  show "fst ` set (x_aijk m) = x_keys inst" using create_variables_keys(1) [OF m0] c(3) by simp
  show "fst ` set (y_tija m) = y_tija_keys inst" using create_variables_keys(2) [OF m0] c(4) by simp
  show "fst ` set (y_tj m) = y_tj_keys inst" using create_variables_keys(3) [OF m0] c(5) by simp
qed

lemma dict_lookup_key:
  assumes "distinct (map fst d)" and "k \<in> fst ` set d"
  shows "\<exists>v. dict_lookup d k = Some v \<and> (k, v) \<in> set d"
proof -
  from assms(2) obtain v where "(k, v) \<in> set d" by force
  with assms(1) show ?thesis by (auto simp: dict_lookup_def)
qed

section \<open>Loops that return, and the rows the encoder can build\<close>

lemma for_loop_total:
  assumes "I s" and "\<And>x s. x \<in> set xs \<Longrightarrow> I s \<Longrightarrow> \<exists>s'. f x s = Some s' \<and> I s'"
  shows "\<exists>s'. for_loop f xs s = Some s' \<and> I s'"
  using assms
proof (induction xs arbitrary: s)
  case Nil
  then show ?case by simp
next
  case (Cons x xs)
  from Cons.prems(2) [of x s] Cons.prems(1) obtain s1 where s1: "f x s = Some s1" "I s1" by auto
  from Cons.IH [OF s1(2)] Cons.prems(2) obtain s' where "for_loop f xs s1 = Some s'" "I s'" by auto
  with s1 show ?case by simp
qed

lemma for_loop2_total:
  assumes "I s"
    and "\<And>a b s. a \<in> set as \<Longrightarrow> b \<in> set bs \<Longrightarrow> I s \<Longrightarrow> \<exists>s'. f a b s = Some s' \<and> I s'"
  shows "\<exists>s'. for_loop (\<lambda>a. for_loop (f a) bs) as s = Some s' \<and> I s'"
  using assms(1)
proof (rule for_loop_total)
  fix a s assume "a \<in> set as" and "I s"
  then show "\<exists>s'. for_loop (f a) bs s = Some s' \<and> I s'"
    by (intro for_loop_total [where I = I]) (auto intro: assms(2))
qed

lemma for_loop3_total:
  assumes "I s"
    and "\<And>a b c s. a \<in> set as \<Longrightarrow> b \<in> set bs \<Longrightarrow> c \<in> set cs \<Longrightarrow> I s \<Longrightarrow>
           \<exists>s'. f a b c s = Some s' \<and> I s'"
  shows "\<exists>s'. for_loop (\<lambda>a. for_loop (\<lambda>b. for_loop (f a b) cs) bs) as s = Some s' \<and> I s'"
  using assms(1)
proof (rule for_loop_total)
  fix a s assume "a \<in> set as" and "I s"
  then show "\<exists>s'. for_loop (\<lambda>b. for_loop (f a b) cs) bs s = Some s' \<and> I s'"
    by (intro for_loop2_total [where I = I]) (auto intro: assms(2))
qed

lemma for_loop_success_iff:
  assumes "I s" and "\<And>x s s'. x \<in> set xs \<Longrightarrow> I s \<Longrightarrow> f x s = Some s' \<Longrightarrow> I s'"
    and "\<And>x s. x \<in> set xs \<Longrightarrow> I s \<Longrightarrow> (f x s \<noteq> None) = ok x"
  shows "(for_loop f xs s \<noteq> None) = (\<forall>x \<in> set xs. ok x)"
  using assms
proof (induction xs arbitrary: s)
  case Nil
  then show ?case by simp
next
  case (Cons x xs)
  show ?case
  proof (cases "f x s")
    case None
    with Cons.prems(3) [of x s] Cons.prems(1) have "\<not> ok x" by simp
    with None show ?thesis by simp
  next
    case (Some s1)
    with Cons.prems(3) [of x s] Cons.prems(1) have okx: "ok x" by simp
    have "I s1" by (rule Cons.prems(2) [OF _ Cons.prems(1) Some]) simp
    then have "(for_loop f xs s1 \<noteq> None) = (\<forall>x \<in> set xs. ok x)"
      using Cons.prems(2,3) by (intro Cons.IH) auto
    with Some okx show ?thesis by simp
  qed
qed

lemma for_loop2_success_iff:
  assumes "I s"
    and "\<And>a b s s'. a \<in> set as \<Longrightarrow> b \<in> set bs \<Longrightarrow> I s \<Longrightarrow> f a b s = Some s' \<Longrightarrow> I s'"
    and "\<And>a b s. a \<in> set as \<Longrightarrow> b \<in> set bs \<Longrightarrow> I s \<Longrightarrow> (f a b s \<noteq> None) = ok a b"
  shows "(for_loop (\<lambda>a. for_loop (f a) bs) as s \<noteq> None) = (\<forall>a \<in> set as. \<forall>b \<in> set bs. ok a b)"
  using assms(1)
proof (rule for_loop_success_iff)
  fix a s s' assume a: "a \<in> set as" and s: "I s" and run: "for_loop (f a) bs s = Some s'"
  from run s show "I s'" by (rule for_loop_invariant) (rule assms(2) [OF a])
next
  fix a s assume a: "a \<in> set as" and s: "I s"
  from s show "(for_loop (f a) bs s \<noteq> None) = (\<forall>b \<in> set bs. ok a b)"
  proof (rule for_loop_success_iff)
    fix b s s' assume "b \<in> set bs" "I s" "f a b s = Some s'"
    then show "I s'" by (rule assms(2) [OF a])
  next
    fix b s assume "b \<in> set bs" "I s"
    then show "(f a b s \<noteq> None) = ok a b" by (rule assms(3) [OF a])
  qed
qed

lemma valid_N: "validate_instance inst \<Longrightarrow> set (inst_N inst) = {1 .. inst_n inst}"
  by (simp add: validate_instance_def)

lemma valid_b:
  "validate_instance inst \<Longrightarrow> j \<in> set (inst_M inst) \<Longrightarrow> k \<in> set (inst_N inst) \<Longrightarrow>
   \<exists>bkj. inst_b inst (k, j) = Some bkj"
  unfolding validate_instance_def by (fastforce split: option.splits)

lemma valid_d:
  "validate_instance inst \<Longrightarrow> a \<in> set (inst_B inst) \<Longrightarrow> i \<in> set (inst_N inst) \<Longrightarrow>
   \<exists>rhs. inst_d inst (a, i) = Some rhs"
  unfolding validate_instance_def by fastforce

lemma valid_v: "validate_instance inst \<Longrightarrow> a \<in> set (inst_A1 inst) \<Longrightarrow> \<exists>v_a. inst_v inst a = Some v_a"
  unfolding validate_instance_def by fastforce

lemma valid_r: "validate_instance inst \<Longrightarrow> a \<in> set (inst_A2 inst) \<Longrightarrow> \<exists>r_a. inst_r inst a = Some r_a"
  unfolding validate_instance_def by fastforce

lemma valid_sets:
  assumes "validate_instance inst"
  shows "set (inst_B inst) \<subseteq> set (inst_A inst)" and "set (inst_C inst) \<subseteq> set (inst_A inst)"
    and "set (inst_A1 inst) \<subseteq> set (inst_A inst)" and "set (inst_A2 inst) \<subseteq> set (inst_A inst)"
    and "set (inst_M1 inst) \<subseteq> set (inst_M inst)" and "set (inst_M2 inst) \<subseteq> set (inst_M inst)"
    and "set (inst_A inst) = set (inst_A1 inst) \<union> set (inst_A2 inst)"
  using assms unfolding validate_instance_def by auto

lemma valid_Ga:
  "validate_instance inst \<Longrightarrow> a \<in> set (inst_C inst) \<Longrightarrow>
   \<exists>parents. inst_Ga inst a = Some parents \<and> (\<forall>p \<in> set parents. \<exists>share. inst_s inst (a, p) = Some share)"
  unfolding validate_instance_def by (fastforce split: option.splits)

lemma valid_Ta:
  "validate_instance inst \<Longrightarrow> a \<in> set (inst_A inst) \<Longrightarrow>
   \<exists>profiles. inst_Ta inst a = Some profiles \<and> set profiles \<subseteq> set (inst_T inst)"
  unfolding validate_instance_def get_or_empty_def by (fastforce split: option.splits)

lemma valid_Ht:
  "validate_instance inst \<Longrightarrow> t \<in> set (inst_T inst) \<Longrightarrow>
   \<exists>acts. inst_Ht inst t = Some acts \<and> set acts \<subseteq> set (inst_A inst)"
  unfolding validate_instance_def get_or_empty_def by (fastforce split: option.splits)

lemma valid_c:
  "validate_instance inst \<Longrightarrow> t \<in> set (inst_T inst) \<Longrightarrow> \<exists>cost. inst_c inst t = Some cost"
  unfolding validate_instance_def by fastforce

lemma valid_mult:
  "validate_instance inst \<Longrightarrow> j \<in> set (inst_M inst) \<Longrightarrow> \<exists>mult. shift_cost_multiplier inst j = Some mult"
  unfolding validate_instance_def by fastforce

lemma valid_Oj:
  "validate_instance inst \<Longrightarrow> j \<in> set (inst_M1 inst) \<Longrightarrow>
   \<exists>window. inst_Oj inst j = Some window \<and> set window \<subseteq> set (inst_N inst)"
  unfolding validate_instance_def by (fastforce split: option.splits)

lemma lookup_in_keys: "k \<in> fst ` set d \<Longrightarrow> \<exists>v. dict_lookup d k = Some v"
  using dict_lookup_None_iff [of d k] by (cases "dict_lookup d k") auto

lemma until_a1_valid:
  assumes "validate_instance inst" and "a \<in> set (inst_A1 inst)"
  shows "\<exists>u. until_a1 inst i a ws = Some u \<and> u \<le> inst_n inst"
  using valid_v [OF assms] by (auto simp: until_a1_def)

lemma until_a2_valid:
  assumes "validate_instance inst" and "a \<in> set (inst_A2 inst)" and "i \<le> inst_n inst"
  shows "\<exists>u. until_a2 inst i a ws = Some u \<and> u \<le> inst_n inst"
  using valid_r [OF assms(1,2)] assms(3) by (auto simp: until_a2_def)

lemma window_row_total:
  assumes v: "validate_instance inst" and keys: "fst ` set (x_aijk m) = x_keys inst"
    and a: "a \<in> set (inst_A inst)" and i: "i \<in> set (inst_N inst)" and u: "until \<le> inst_n inst"
  shows "\<exists>row'. window_row inst m a i until row = Some row'"
proof -
  have "\<exists>row'. window_row inst m a i until row = Some row' \<and> True"
    unfolding window_row_def
  proof (rule for_loop2_total [where I = "\<lambda>_. True"])
    fix j k row
    assume j: "j \<in> set (inst_M inst)" and k: "k \<in> set [i .. until]"
    from i k u have kN: "k \<in> set (inst_N inst)" by (auto simp: valid_N [OF v])
    with a i j have "(a, i, j, k) \<in> fst ` set (x_aijk m)" by (simp add: keys x_keys_def)
    from lookup_in_keys [OF this] obtain idx where "dict_lookup (x_aijk m) (a, i, j, k) = Some idx" ..
    moreover from valid_b [OF v j kN] obtain bkj where "inst_b inst (k, j) = Some bkj" ..
    ultimately show "\<exists>row'. do {
         idx \<leftarrow> dict_lookup (x_aijk m) (a, i, j, k);
         bkj \<leftarrow> inst_b inst (k, j);
         Some (dict_set row idx (dict_get row idx 0 + of_int bkj))
       } = Some row' \<and> True" by simp
  qed simp
  then show ?thesis by simp
qed

lemma sorted_inter_set [simp]:
  "set (sorted_list_of_set (set xs \<inter> set ys)) = set xs \<inter> set ys"
  by simp

lemma eq2_rows_total:
  assumes v: "validate_instance inst" and keys: "fst ` set (x_aijk m) = x_keys inst"
  shows "\<exists>m'. eq2_rows thr inst ws m = Some m' \<and> x_aijk m' = x_aijk m"
  unfolding eq2_rows_def
proof (rule for_loop2_total [where I = "\<lambda>s. x_aijk s = x_aijk m"])
  fix i a and s :: WAESModel
  assume i: "i \<in> set (inst_N inst)"
    and a: "a \<in> set (sorted_list_of_set (set (inst_B inst) \<inter> set (inst_A1 inst)))"
    and s: "x_aijk s = x_aijk m"
  from a have aB: "a \<in> set (inst_B inst)" and aA1: "a \<in> set (inst_A1 inst)" by simp_all
  from aB valid_sets(1) [OF v] have aA: "a \<in> set (inst_A inst)" by auto
  from until_a1_valid [OF v aA1] obtain u where u: "until_a1 inst i a ws = Some u" "u \<le> inst_n inst"
    by blast
  have keys': "fst ` set (x_aijk s) = x_keys inst" using keys s by simp
  from window_row_total [OF v keys' aA i u(2)] obtain row where
    row: "window_row inst s a i u [] = Some row" by blast
  from valid_d [OF v aB i] obtain rhs where rhs: "inst_d inst (a, i) = Some rhs" ..
  show "\<exists>s'. do {
         until \<leftarrow> until_a1 inst i a ws;
         row \<leftarrow> window_row inst s a i until [];
         rhs \<leftarrow> inst_d inst (a, i);
         Some (add_row thr row (Num rhs) (Num rhs) s)
       } = Some s' \<and> x_aijk s' = x_aijk m"
    using u row rhs s by (simp add: add_row_def Let_def)
qed simp

lemma eq3_rows_total:
  assumes v: "validate_instance inst" and keys: "fst ` set (x_aijk m) = x_keys inst"
  shows "\<exists>m'. eq3_rows thr inst ws m = Some m' \<and> x_aijk m' = x_aijk m"
  unfolding eq3_rows_def
proof (rule for_loop2_total [where I = "\<lambda>s. x_aijk s = x_aijk m"])
  fix i a and s :: WAESModel
  assume i: "i \<in> set (inst_N inst)"
    and a: "a \<in> set (sorted_list_of_set (set (inst_B inst) \<inter> set (inst_A2 inst)))"
    and s: "x_aijk s = x_aijk m"
  from a have aB: "a \<in> set (inst_B inst)" and aA2: "a \<in> set (inst_A2 inst)" by simp_all
  from aB valid_sets(1) [OF v] have aA: "a \<in> set (inst_A inst)" by auto
  from i have "i \<le> inst_n inst" by (simp add: valid_N [OF v])
  from until_a2_valid [OF v aA2 this] obtain u where u: "until_a2 inst i a ws = Some u" "u \<le> inst_n inst"
    by blast
  have keys': "fst ` set (x_aijk s) = x_keys inst" using keys s by simp
  from window_row_total [OF v keys' aA i u(2)] obtain row where
    row: "window_row inst s a i u [] = Some row" by blast
  from valid_d [OF v aB i] obtain rhs where rhs: "inst_d inst (a, i) = Some rhs" ..
  show "\<exists>s'. do {
         until \<leftarrow> until_a2 inst i a ws;
         row \<leftarrow> window_row inst s a i until [];
         rhs \<leftarrow> inst_d inst (a, i);
         Some (add_row thr row (Num rhs) (Num rhs) s)
       } = Some s' \<and> x_aijk s' = x_aijk m"
    using u row rhs s by (simp add: add_row_def Let_def)
qed simp

lemma parents_row_success:
  assumes v: "validate_instance inst" and keys: "fst ` set (x_aijk m) = x_keys inst"
    and a: "a \<in> set (inst_C inst)" and k: "k \<in> set (inst_N inst)"
  shows "(parents_row inst m a k row \<noteq> None) =
         (inst_M inst = [] \<or> (\<forall>p \<in> set (get_or_empty (inst_Ga inst) a). p \<in> set (inst_A inst)))"
proof -
  from valid_Ga [OF v a] obtain parents where
    ga: "inst_Ga inst a = Some parents"
    and sh: "\<forall>p \<in> set parents. \<exists>share. inst_s inst (a, p) = Some share" by blast
  have inner: "(for_loop (\<lambda>j. for_loop (\<lambda>i row. do {
               idx \<leftarrow> dict_lookup (x_aijk m) (p, i, j, k);
               Some (dict_set row idx (dict_get row idx 0 - coeff))
             }) (inst_N inst)) (inst_M inst) row \<noteq> None) =
        (inst_M inst = [] \<or> p \<in> set (inst_A inst))" for p coeff and row :: row
  proof -
    have "(for_loop (\<lambda>j. for_loop (\<lambda>i row. do {
               idx \<leftarrow> dict_lookup (x_aijk m) (p, i, j, k);
               Some (dict_set row idx (dict_get row idx 0 - coeff))
             }) (inst_N inst)) (inst_M inst) row \<noteq> None) =
          (\<forall>j \<in> set (inst_M inst). \<forall>i \<in> set (inst_N inst). p \<in> set (inst_A inst))"
    proof (rule for_loop2_success_iff [where I = "\<lambda>_. True"])
      fix j i row
      assume "j \<in> set (inst_M inst)" "i \<in> set (inst_N inst)"
      then have "((p, i, j, k) \<in> fst ` set (x_aijk m)) = (p \<in> set (inst_A inst))"
        using k by (simp add: keys x_keys_def)
      then show "(do {
               idx \<leftarrow> dict_lookup (x_aijk m) (p, i, j, k);
               Some (dict_set row idx (dict_get row idx 0 - coeff))
             } \<noteq> None) = (p \<in> set (inst_A inst))"
        using dict_lookup_None_iff [of "x_aijk m" "(p, i, j, k)"]
        by (cases "dict_lookup (x_aijk m) (p, i, j, k)") auto
    qed simp_all
    also have "\<dots> = (inst_M inst = [] \<or> p \<in> set (inst_A inst))"
      using k by (cases "inst_M inst") auto
    finally show ?thesis .
  qed
  have "(for_loop (\<lambda>a_parent row. do {
           coeff \<leftarrow> inst_s inst (a, a_parent);
           for_loop (\<lambda>j. for_loop (\<lambda>i row. do {
               idx \<leftarrow> dict_lookup (x_aijk m) (a_parent, i, j, k);
               Some (dict_set row idx (dict_get row idx 0 - coeff))
             }) (inst_N inst)) (inst_M inst) row
         }) parents row \<noteq> None) =
        (\<forall>p \<in> set parents. inst_M inst = [] \<or> p \<in> set (inst_A inst))"
  proof (rule for_loop_success_iff [where I = "\<lambda>_. True"])
    fix p row assume "p \<in> set parents"
    with sh obtain share where "inst_s inst (a, p) = Some share" by blast
    then show "(do {
           coeff \<leftarrow> inst_s inst (a, p);
           for_loop (\<lambda>j. for_loop (\<lambda>i row. do {
               idx \<leftarrow> dict_lookup (x_aijk m) (p, i, j, k);
               Some (dict_set row idx (dict_get row idx 0 - coeff))
             }) (inst_N inst)) (inst_M inst) row
         } \<noteq> None) = (inst_M inst = [] \<or> p \<in> set (inst_A inst))"
      by (simp add: inner del: not_None_eq)
  qed simp_all
  then show ?thesis
    by (auto simp: parents_row_def ga get_or_empty_def)
qed

lemma eq4_rows_success:
  assumes v: "validate_instance inst" and keys: "fst ` set (x_aijk m) = x_keys inst"
  shows "(eq4_rows thr inst ws m \<noteq> None) =
         (\<forall>k \<in> set (inst_N inst). \<forall>a \<in> set (inst_C inst) \<inter> set (inst_A1 inst).
            inst_M inst = [] \<or> (\<forall>p \<in> set (get_or_empty (inst_Ga inst) a). p \<in> set (inst_A inst)))"
proof -
  have "(eq4_rows thr inst ws m \<noteq> None) =
        (\<forall>k \<in> set (inst_N inst).
           \<forall>a \<in> set (sorted_list_of_set (set (inst_C inst) \<inter> set (inst_A1 inst))).
             inst_M inst = [] \<or> (\<forall>p \<in> set (get_or_empty (inst_Ga inst) a). p \<in> set (inst_A inst)))"
    unfolding eq4_rows_def
  proof (rule for_loop2_success_iff [where I = "\<lambda>s. x_aijk s = x_aijk m"])
    fix k a and s s' :: WAESModel
    assume "x_aijk s = x_aijk m" and "do {
         until \<leftarrow> until_a1 inst k a ws;
         row \<leftarrow> window_row inst s a k until [];
         row \<leftarrow> parents_row inst s a k row;
         Some (add_row thr row (Num 0) Inf s)
       } = Some s'"
    then show "x_aijk s' = x_aijk m"
      by (auto simp: bind_eq_Some_conv add_row_def Let_def)
  next
    fix k a and s :: WAESModel
    assume k: "k \<in> set (inst_N inst)"
      and a: "a \<in> set (sorted_list_of_set (set (inst_C inst) \<inter> set (inst_A1 inst)))"
      and s: "x_aijk s = x_aijk m"
    from a have aC: "a \<in> set (inst_C inst)" and aA1: "a \<in> set (inst_A1 inst)" by simp_all
    from aC valid_sets(2) [OF v] have aA: "a \<in> set (inst_A inst)" by auto
    from until_a1_valid [OF v aA1] obtain u where u: "until_a1 inst k a ws = Some u" "u \<le> inst_n inst"
      by blast
    have keys': "fst ` set (x_aijk s) = x_keys inst" using keys s by simp
    from window_row_total [OF v keys' aA k u(2)] obtain row where
      row: "window_row inst s a k u [] = Some row" by blast
    show "(do {
         until \<leftarrow> until_a1 inst k a ws;
         row \<leftarrow> window_row inst s a k until [];
         row \<leftarrow> parents_row inst s a k row;
         Some (add_row thr row (Num 0) Inf s)
       } \<noteq> None) =
       (inst_M inst = [] \<or> (\<forall>p \<in> set (get_or_empty (inst_Ga inst) a). p \<in> set (inst_A inst)))"
      using parents_row_success [OF v keys' aC k, of row]
      by (cases "parents_row inst s a k row") (simp_all add: u row del: not_None_eq)
  qed simp
  then show ?thesis by simp
qed

lemma eq5_rows_success:
  assumes v: "validate_instance inst" and keys: "fst ` set (x_aijk m) = x_keys inst"
  shows "(eq5_rows thr inst ws m \<noteq> None) =
         (\<forall>k \<in> set (inst_N inst). \<forall>a \<in> set (inst_C inst) \<inter> set (inst_A2 inst).
            inst_M inst = [] \<or> (\<forall>p \<in> set (get_or_empty (inst_Ga inst) a). p \<in> set (inst_A inst)))"
proof -
  have "(eq5_rows thr inst ws m \<noteq> None) =
        (\<forall>k \<in> set (inst_N inst).
           \<forall>a \<in> set (sorted_list_of_set (set (inst_C inst) \<inter> set (inst_A2 inst))).
             inst_M inst = [] \<or> (\<forall>p \<in> set (get_or_empty (inst_Ga inst) a). p \<in> set (inst_A inst)))"
    unfolding eq5_rows_def
  proof (rule for_loop2_success_iff [where I = "\<lambda>s. x_aijk s = x_aijk m"])
    fix k a and s s' :: WAESModel
    assume "x_aijk s = x_aijk m" and "do {
         until \<leftarrow> until_a2 inst k a ws;
         row \<leftarrow> window_row inst s a k until [];
         row \<leftarrow> parents_row inst s a k row;
         Some (add_row thr row (Num 0) Inf s)
       } = Some s'"
    then show "x_aijk s' = x_aijk m"
      by (auto simp: bind_eq_Some_conv add_row_def Let_def)
  next
    fix k a and s :: WAESModel
    assume k: "k \<in> set (inst_N inst)"
      and a: "a \<in> set (sorted_list_of_set (set (inst_C inst) \<inter> set (inst_A2 inst)))"
      and s: "x_aijk s = x_aijk m"
    from a have aC: "a \<in> set (inst_C inst)" and aA2: "a \<in> set (inst_A2 inst)" by simp_all
    from aC valid_sets(2) [OF v] have aA: "a \<in> set (inst_A inst)" by auto
    from k have "k \<le> inst_n inst" by (simp add: valid_N [OF v])
    from until_a2_valid [OF v aA2 this] obtain u where u: "until_a2 inst k a ws = Some u" "u \<le> inst_n inst"
      by blast
    have keys': "fst ` set (x_aijk s) = x_keys inst" using keys s by simp
    from window_row_total [OF v keys' aA k u(2)] obtain row where
      row: "window_row inst s a k u [] = Some row" by blast
    show "(do {
         until \<leftarrow> until_a2 inst k a ws;
         row \<leftarrow> window_row inst s a k until [];
         row \<leftarrow> parents_row inst s a k row;
         Some (add_row thr row (Num 0) Inf s)
       } \<noteq> None) =
       (inst_M inst = [] \<or> (\<forall>p \<in> set (get_or_empty (inst_Ga inst) a). p \<in> set (inst_A inst)))"
      using parents_row_success [OF v keys' aC k, of row]
      by (cases "parents_row inst s a k row") (simp_all add: u row del: not_None_eq)
  qed simp
  then show ?thesis by simp
qed

lemma lookup_loop_total:
  assumes "\<And>e. e \<in> set es \<Longrightarrow> key e \<in> fst ` set d"
  shows "\<exists>row'. for_loop (\<lambda>e row. do { idx \<leftarrow> dict_lookup d (key e); Some (g e row idx) }) es row = Some row'"
proof -
  have "\<exists>row'. for_loop (\<lambda>e row. do { idx \<leftarrow> dict_lookup d (key e); Some (g e row idx) }) es row = Some row' \<and> True"
  proof (rule for_loop_total [where I = "\<lambda>_. True"])
    fix e row assume "e \<in> set es"
    from lookup_in_keys [OF assms [OF this]] obtain idx where "dict_lookup d (key e) = Some idx" ..
    then show "\<exists>s'. do { idx \<leftarrow> dict_lookup d (key e); Some (g e row idx) } = Some s' \<and> True"
      by simp
  qed simp
  then show ?thesis by simp
qed

lemma lookup_loop2_total:
  assumes "\<And>a b. a \<in> set as \<Longrightarrow> b \<in> set bs \<Longrightarrow> key a b \<in> fst ` set d"
  shows "\<exists>row'. for_loop (\<lambda>a. for_loop (\<lambda>b row. do { idx \<leftarrow> dict_lookup d (key a b); Some (g a b row idx) }) bs)
           as row = Some row'"
proof -
  have "\<exists>row'. for_loop (\<lambda>a. for_loop (\<lambda>b row. do { idx \<leftarrow> dict_lookup d (key a b); Some (g a b row idx) }) bs)
           as row = Some row' \<and> True"
  proof (rule for_loop_total [where I = "\<lambda>_. True"])
    fix a row assume "a \<in> set as"
    with lookup_loop_total [of bs "key a" d "g a" row] assms
    show "\<exists>s'. for_loop (\<lambda>b row. do { idx \<leftarrow> dict_lookup d (key a b); Some (g a b row idx) }) bs row = Some s' \<and> True"
      by simp
  qed simp
  then show ?thesis by simp
qed

lemma lookup_loop3_total:
  assumes "\<And>a b c. a \<in> set as \<Longrightarrow> b \<in> set bs \<Longrightarrow> c \<in> set cs \<Longrightarrow> key a b c \<in> fst ` set d"
  shows "\<exists>row'. for_loop (\<lambda>a. for_loop (\<lambda>b. for_loop (\<lambda>c row.
           do { idx \<leftarrow> dict_lookup d (key a b c); Some (g a b c row idx) }) cs) bs) as row = Some row'"
proof -
  have "\<exists>row'. for_loop (\<lambda>a. for_loop (\<lambda>b. for_loop (\<lambda>c row.
           do { idx \<leftarrow> dict_lookup d (key a b c); Some (g a b c row idx) }) cs) bs) as row = Some row' \<and> True"
  proof (rule for_loop_total [where I = "\<lambda>_. True"])
    fix a row assume "a \<in> set as"
    with lookup_loop2_total [of bs cs "key a" d "g a" row] assms
    show "\<exists>s'. for_loop (\<lambda>b. for_loop (\<lambda>c row.
           do { idx \<leftarrow> dict_lookup d (key a b c); Some (g a b c row idx) }) cs) bs row = Some s' \<and> True"
      by simp
  qed simp
  then show ?thesis by simp
qed

lemma ready_catalog: "catalog_of s = catalog_of m \<Longrightarrow> ready inst s = ready inst m"
  by (simp add: ready_def catalog_of_def)

lemma eq6_rows_total:
  assumes v: "validate_instance inst" and r: "ready inst m"
  shows "\<exists>m'. eq6_rows thr inst m = Some m' \<and> catalog_of m' = catalog_of m"
  unfolding eq6_rows_def
proof (rule for_loop3_total [where I = "\<lambda>s. catalog_of s = catalog_of m"])
  fix k j a and s :: WAESModel
  assume k: "k \<in> set (inst_N inst)" and j: "j \<in> set (inst_M inst)" and a: "a \<in> set (inst_A inst)"
    and s: "catalog_of s = catalog_of m"
  from r ready_catalog [OF s, of inst] have rs: "ready inst s" by simp
  have keyfact_row1: "\<And>i. i \<in> set [1 .. k] \<Longrightarrow> (a, i, j, k) \<in> fst ` set (x_aijk s)"
    using rs k j a by (auto simp: ready_def x_keys_def valid_N [OF v])
  have "\<exists>row1. for_loop (\<lambda>i row. do {
                   idx \<leftarrow> dict_lookup (x_aijk s) (a, i, j, k);
                   Some (dict_set row idx (dict_get row idx 0 + 1))
                 }) [1 .. k] ([] :: row) = Some row1"
    by (rule lookup_loop_total [where key = "\<lambda>i. (a, i, j, k)" and d = "x_aijk s"]) (rule keyfact_row1)
  then obtain row1 where
    row1: "for_loop (\<lambda>i row. do {
                   idx \<leftarrow> dict_lookup (x_aijk s) (a, i, j, k);
                   Some (dict_set row idx (dict_get row idx 0 + 1))
                 }) [1 .. k] ([] :: row) = Some row1" by blast
  from valid_Ta [OF v a] obtain profiles where
    p: "inst_Ta inst a = Some profiles" "set profiles \<subseteq> set (inst_T inst)" by blast
  have keyfact_row2: "\<And>t. t \<in> set profiles \<Longrightarrow> (t, k, j, a) \<in> fst ` set (y_tija s)"
    using rs k j a p(2) by (auto simp: ready_def y_tija_keys_def)
  have "\<exists>row2. for_loop (\<lambda>t row. do {
                   idx \<leftarrow> dict_lookup (y_tija s) (t, k, j, a);
                   Some (dict_set row idx (dict_get row idx 0 - 1))
                 }) profiles row1 = Some row2"
    by (rule lookup_loop_total [where key = "\<lambda>t. (t, k, j, a)" and d = "y_tija s"]) (rule keyfact_row2)
  then obtain row2 where
    row2: "for_loop (\<lambda>t row. do {
                   idx \<leftarrow> dict_lookup (y_tija s) (t, k, j, a);
                   Some (dict_set row idx (dict_get row idx 0 - 1))
                 }) profiles row1 = Some row2" by blast
  show "\<exists>s'. do {
         row \<leftarrow> for_loop (\<lambda>i row. do {
                   idx \<leftarrow> dict_lookup (x_aijk s) (a, i, j, k);
                   Some (dict_set row idx (dict_get row idx 0 + 1))
                 }) [1 .. k] [];
         profiles \<leftarrow> inst_Ta inst a;
         row \<leftarrow> for_loop (\<lambda>t row. do {
                   idx \<leftarrow> dict_lookup (y_tija s) (t, k, j, a);
                   Some (dict_set row idx (dict_get row idx 0 - 1))
                 }) profiles row;
         Some (add_row thr row NInf (Num 0) s)
       } = Some s' \<and> catalog_of s' = catalog_of m"
    using row1 p(1) row2 s by simp
qed simp

lemma eq7_rows_total:
  assumes v: "validate_instance inst" and r: "ready inst m"
  shows "\<exists>m'. eq7_rows thr inst m = Some m' \<and> catalog_of m' = catalog_of m"
  unfolding eq7_rows_def
proof (rule for_loop3_total [where I = "\<lambda>s. catalog_of s = catalog_of m"])
  fix i j t and s :: WAESModel
  assume i: "i \<in> set (inst_N inst)" and j: "j \<in> set (inst_M inst)" and t: "t \<in> set (inst_T inst)"
    and s: "catalog_of s = catalog_of m"
  from r ready_catalog [OF s, of inst] have rs: "ready inst s" by simp
  from valid_Ht [OF v t] obtain acts where
    h: "inst_Ht inst t = Some acts" "set acts \<subseteq> set (inst_A inst)" by blast
  have keyfact_row: "\<And>a. a \<in> set acts \<Longrightarrow> (t, i, j, a) \<in> fst ` set (y_tija s)"
    using rs i j t h(2) by (auto simp: ready_def y_tija_keys_def)
  have "\<exists>row. for_loop (\<lambda>a row. do {
                   idx \<leftarrow> dict_lookup (y_tija s) (t, i, j, a);
                   Some (dict_set row idx (dict_get row idx 0 + 1))
                 }) acts ([] :: row) = Some row"
    by (rule lookup_loop_total [where key = "\<lambda>a. (t, i, j, a)" and d = "y_tija s"]) (rule keyfact_row)
  then obtain row where
    row: "for_loop (\<lambda>a row. do {
                   idx \<leftarrow> dict_lookup (y_tija s) (t, i, j, a);
                   Some (dict_set row idx (dict_get row idx 0 + 1))
                 }) acts ([] :: row) = Some row" by blast
  have "(t, j) \<in> fst ` set (y_tj s)" using rs t j by (simp add: ready_def y_tj_keys_def)
  from lookup_in_keys [OF this] obtain idx where idx: "dict_lookup (y_tj s) (t, j) = Some idx" ..
  show "\<exists>s'. do {
         acts \<leftarrow> inst_Ht inst t;
         row \<leftarrow> for_loop (\<lambda>a row. do {
                   idx \<leftarrow> dict_lookup (y_tija s) (t, i, j, a);
                   Some (dict_set row idx (dict_get row idx 0 + 1))
                 }) acts [];
         idx_shift \<leftarrow> dict_lookup (y_tj s) (t, j);
         let row = dict_set row idx_shift (dict_get row idx_shift 0 - 1);
         Some (add_row thr row NInf (Num 0) s)
       } = Some s' \<and> catalog_of s' = catalog_of m"
    using h(1) row idx s by simp
qed simp

lemma eq8_rows_total:
  assumes v: "validate_instance inst" and r: "ready inst m"
  shows "\<exists>m'. eq8_rows thr inst m = Some m' \<and> catalog_of m' = catalog_of m"
  unfolding eq8_rows_def
proof (rule for_loop_total [where I = "\<lambda>s. catalog_of s = catalog_of m"])
  fix i and s :: WAESModel
  assume i: "i \<in> set (inst_N inst)" and s: "catalog_of s = catalog_of m"
  from r ready_catalog [OF s, of inst] have rs: "ready inst s" by simp
  have keyfact_row: "\<And>t j a. t \<in> set (inst_T inst) \<Longrightarrow> j \<in> set (inst_M inst) \<Longrightarrow> a \<in> set (inst_A inst) \<Longrightarrow>
          (t, i, j, a) \<in> fst ` set (y_tija s)"
    using rs i by (auto simp: ready_def y_tija_keys_def)
  have "\<exists>row. for_loop (\<lambda>t. for_loop (\<lambda>j. for_loop (\<lambda>a row. do {
                   idx \<leftarrow> dict_lookup (y_tija s) (t, i, j, a);
                   Some (dict_set row idx (dict_get row idx 0 + 1))
                 }) (inst_A inst)) (inst_M inst)) (inst_T inst) ([] :: row) = Some row"
    by (rule lookup_loop3_total [where key = "\<lambda>t j a. (t, i, j, a)" and d = "y_tija s"]) (rule keyfact_row)
  then obtain row where
    row: "for_loop (\<lambda>t. for_loop (\<lambda>j. for_loop (\<lambda>a row. do {
                   idx \<leftarrow> dict_lookup (y_tija s) (t, i, j, a);
                   Some (dict_set row idx (dict_get row idx 0 + 1))
                 }) (inst_A inst)) (inst_M inst)) (inst_T inst) ([] :: row) = Some row" by blast
  show "\<exists>s'. do {
         row \<leftarrow> for_loop (\<lambda>t. for_loop (\<lambda>j. for_loop (\<lambda>a row. do {
                   idx \<leftarrow> dict_lookup (y_tija s) (t, i, j, a);
                   Some (dict_set row idx (dict_get row idx 0 + 1))
                 }) (inst_A inst)) (inst_M inst)) (inst_T inst) [];
         Some (add_row thr row NInf (Num (of_int (inst_q inst))) s)
       } = Some s' \<and> catalog_of s' = catalog_of m"
    using row s by simp
qed simp

lemma eq9_rows_total:
  assumes v: "validate_instance inst" and r: "ready inst m"
  shows "\<exists>m'. eq9_rows thr inst m = Some m' \<and> catalog_of m' = catalog_of m"
  unfolding eq9_rows_def
proof (rule for_loop2_total [where I = "\<lambda>s. catalog_of s = catalog_of m"])
  fix t j and s :: WAESModel
  assume t: "t \<in> set (inst_T inst)" and j1: "j \<in> set (inst_M1 inst)"
    and s: "catalog_of s = catalog_of m"
  from r ready_catalog [OF s, of inst] have rs: "ready inst s" by simp
  from j1 valid_sets(5) [OF v] have j: "j \<in> set (inst_M inst)" by auto
  from valid_Oj [OF v j1] obtain window where
    w: "inst_Oj inst j = Some window" "set window \<subseteq> set (inst_N inst)" by blast
  from valid_Ht [OF v t] obtain acts where
    h: "inst_Ht inst t = Some acts" "set acts \<subseteq> set (inst_A inst)" by blast
  have keyfact_row: "\<And>i a. i \<in> set window \<Longrightarrow> a \<in> set acts \<Longrightarrow> (t, i, j, a) \<in> fst ` set (y_tija s)"
    using rs t j w(2) h(2) by (auto simp: ready_def y_tija_keys_def)
  have "\<exists>row. for_loop (\<lambda>i. for_loop (\<lambda>a row. do {
                       idx \<leftarrow> dict_lookup (y_tija s) (t, i, j, a);
                       Some (dict_set row idx (dict_get row idx 0 + 1))
                     }) acts) window ([] :: row) = Some row"
    by (rule lookup_loop2_total [where key = "\<lambda>i a. (t, i, j, a)" and d = "y_tija s"]) (rule keyfact_row)
  then obtain row where
    row: "for_loop (\<lambda>i. for_loop (\<lambda>a row. do {
                       idx \<leftarrow> dict_lookup (y_tija s) (t, i, j, a);
                       Some (dict_set row idx (dict_get row idx 0 + 1))
                     }) acts) window ([] :: row) = Some row" by blast
  have "(t, j) \<in> fst ` set (y_tj s)" using rs t j by (simp add: ready_def y_tj_keys_def)
  from lookup_in_keys [OF this] obtain idx where idx: "dict_lookup (y_tj s) (t, j) = Some idx" ..
  show "\<exists>s'. do {
         window \<leftarrow> inst_Oj inst j;
         row \<leftarrow> for_loop (\<lambda>i row. do {
                   acts \<leftarrow> inst_Ht inst t;
                   for_loop (\<lambda>a row. do {
                       idx \<leftarrow> dict_lookup (y_tija s) (t, i, j, a);
                       Some (dict_set row idx (dict_get row idx 0 + 1))
                     }) acts row
                 }) window [];
         idx_shift \<leftarrow> dict_lookup (y_tj s) (t, j);
         let row = dict_set row idx_shift
                     (dict_get row idx_shift 0 - of_int (inst_f inst - inst_p inst));
         Some (add_row thr row NInf (Num 0) s)
       } = Some s' \<and> catalog_of s' = catalog_of m"
    using w(1) h(1) row idx s by simp
qed simp

lemma eq10_row_total:
  assumes v: "validate_instance inst" and r: "ready inst m"
  shows "\<exists>m'. eq10_row thr inst m = Some m' \<and> catalog_of m' = catalog_of m"
proof -
  have keyfact_row1: "\<And>j t. j \<in> set (inst_M2 inst) \<Longrightarrow> t \<in> set (inst_T inst) \<Longrightarrow> (t, j) \<in> fst ` set (y_tj m)"
    using r valid_sets(6) [OF v] by (auto simp: ready_def y_tj_keys_def)
  have "\<exists>row1. for_loop (\<lambda>j. for_loop (\<lambda>t row. do {
                 idx \<leftarrow> dict_lookup (y_tj m) (t, j);
                 Some (dict_set row idx (dict_get row idx 0 + 1))
               }) (inst_T inst)) (inst_M2 inst) ([] :: row) = Some row1"
    by (rule lookup_loop2_total [where key = "\<lambda>j t. (t, j)" and d = "y_tj m"]) (rule keyfact_row1)
  then obtain row1 where
    row1: "for_loop (\<lambda>j. for_loop (\<lambda>t row. do {
                 idx \<leftarrow> dict_lookup (y_tj m) (t, j);
                 Some (dict_set row idx (dict_get row idx 0 + 1))
               }) (inst_T inst)) (inst_M2 inst) ([] :: row) = Some row1" by blast
  have keyfact_row2: "\<And>j t. j \<in> set (inst_M inst) \<Longrightarrow> t \<in> set (inst_T inst) \<Longrightarrow> (t, j) \<in> fst ` set (y_tj m)"
    using r by (auto simp: ready_def y_tj_keys_def)
  have "\<exists>row2. for_loop (\<lambda>j. for_loop (\<lambda>t row. do {
                 idx \<leftarrow> dict_lookup (y_tj m) (t, j);
                 Some (dict_set row idx (dict_get row idx 0 - inst_w inst))
               }) (inst_T inst)) (inst_M inst) row1 = Some row2"
    by (rule lookup_loop2_total [where key = "\<lambda>j t. (t, j)" and d = "y_tj m"]) (rule keyfact_row2)
  then obtain row2 where
    row2: "for_loop (\<lambda>j. for_loop (\<lambda>t row. do {
                 idx \<leftarrow> dict_lookup (y_tj m) (t, j);
                 Some (dict_set row idx (dict_get row idx 0 - inst_w inst))
               }) (inst_T inst)) (inst_M inst) row1 = Some row2" by blast
  show ?thesis
    unfolding eq10_row_def using row1 row2 by simp
qed

lemma create_variables_total:
  assumes v: "validate_instance inst"
  shows "\<exists>m. create_variables inst ws = Some m"
proof -
  have "\<exists>m'. create_y_tj inst m = Some m' \<and> True" for m
    unfolding create_y_tj_def
  proof (rule for_loop2_total [where I = "\<lambda>_. True"])
    fix t j and s :: WAESModel
    assume "t \<in> set (inst_T inst)" and "j \<in> set (inst_M inst)"
    with valid_c [OF v] valid_mult [OF v] obtain cost mult where
      "inst_c inst t = Some cost" "shift_cost_multiplier inst j = Some mult" by blast
    then show "\<exists>s'. do {
         cost \<leftarrow> inst_c inst t;
         mult \<leftarrow> shift_cost_multiplier inst j;
         let (idx, m) = add_var (''y_t'' @ str_int t @ ''_j'' @ str_int j)
                          (cost * mult) (Num 0) (Num (of_int (inst_q inst))) ''I'' s;
         Some (m \<lparr> y_tj := dict_set (y_tj m) (t, j) idx \<rparr>)
       } = Some s' \<and> True"
      by (simp add: add_var_def)
  qed simp
  then show ?thesis by (simp add: create_variables_def)
qed

lemma create_variables_ready: "create_variables inst ws = Some m \<Longrightarrow> ready inst m"
  by (simp add: ready_def create_variables_keys)

lemma ready_step: "ready inst m \<Longrightarrow> catalog_of m' = catalog_of m \<Longrightarrow> ready inst m'"
  by (simp add: ready_def catalog_of_def)

lemma known_parents_iff:
  assumes v: "validate_instance inst"
  shows "known_parents inst \<longleftrightarrow>
     (\<forall>k \<in> set (inst_N inst). \<forall>a \<in> set (inst_C inst) \<inter> set (inst_A1 inst).
            inst_M inst = [] \<or> (\<forall>p \<in> set (get_or_empty (inst_Ga inst) a). p \<in> set (inst_A inst))) \<and>
     (\<forall>k \<in> set (inst_N inst). \<forall>a \<in> set (inst_C inst) \<inter> set (inst_A2 inst).
            inst_M inst = [] \<or> (\<forall>p \<in> set (get_or_empty (inst_Ga inst) a). p \<in> set (inst_A inst)))"
proof (cases "inst_N inst = [] \<or> inst_M inst = []")
  case True
  then show ?thesis by (auto simp: known_parents_def)
next
  case False
  then obtain k where k: "k \<in> set (inst_N inst)" by (cases "inst_N inst") auto
  have C: "set (inst_C inst) \<subseteq> set (inst_A1 inst) \<union> set (inst_A2 inst)"
    using valid_sets(2,7) [OF v] by auto
  show ?thesis
    unfolding known_parents_def using False k C by blast
qed

lemma build_success_iff:
  assumes v: "validate_instance inst"
  shows "(build_waes_model_thr thr inst ws \<noteq> None) = known_parents inst"
proof -
  from create_variables_total [OF v] obtain m0 where m0: "create_variables inst ws = Some m0" ..
  have r0: "ready inst m0" by (rule create_variables_ready [OF m0])
  then have k0: "fst ` set (x_aijk m0) = x_keys inst" by (simp add: ready_def)
  from eq2_rows_total [OF v k0] obtain m2 where m2: "eq2_rows thr inst ws m0 = Some m2" by blast
  have r2: "ready inst m2" by (rule ready_step [OF r0 eq2_rows_catalog [OF m2]])
  then have k2: "fst ` set (x_aijk m2) = x_keys inst" by (simp add: ready_def)
  from eq3_rows_total [OF v k2] obtain m3 where m3: "eq3_rows thr inst ws m2 = Some m3" by blast
  have r3: "ready inst m3" by (rule ready_step [OF r2 eq3_rows_catalog [OF m3]])
  then have k3: "fst ` set (x_aijk m3) = x_keys inst" by (simp add: ready_def)
  note s4 = eq4_rows_success [OF v k3, of thr ws]
  show ?thesis
  proof (cases "eq4_rows thr inst ws m3")
    case None
    then have "build_waes_model_thr thr inst ws = None"
      by (simp add: build_waes_model_thr_def m0 m2 m3)
    moreover from None s4 known_parents_iff [OF v] have "\<not> known_parents inst" by auto
    ultimately show ?thesis by simp
  next
    case (Some m4)
    have r4: "ready inst m4" by (rule ready_step [OF r3 eq4_rows_catalog [OF Some]])
    then have k4: "fst ` set (x_aijk m4) = x_keys inst" by (simp add: ready_def)
    note s5 = eq5_rows_success [OF v k4, of thr ws]
    show ?thesis
    proof (cases "eq5_rows thr inst ws m4")
      case None
      then have "build_waes_model_thr thr inst ws = None"
        by (simp add: build_waes_model_thr_def m0 m2 m3 Some)
      moreover from None s5 known_parents_iff [OF v] have "\<not> known_parents inst" by auto
      ultimately show ?thesis by simp
    next
      case m5: (Some m5)
      have r5: "ready inst m5" by (rule ready_step [OF r4 eq5_rows_catalog [OF m5]])
      from eq6_rows_total [OF v r5] obtain m6 where m6: "eq6_rows thr inst m5 = Some m6"
        and c6: "catalog_of m6 = catalog_of m5" by blast
      have r6: "ready inst m6" by (rule ready_step [OF r5 c6])
      from eq7_rows_total [OF v r6] obtain m7 where m7: "eq7_rows thr inst m6 = Some m7"
        and c7: "catalog_of m7 = catalog_of m6" by blast
      have r7: "ready inst m7" by (rule ready_step [OF r6 c7])
      from eq8_rows_total [OF v r7] obtain m8 where m8: "eq8_rows thr inst m7 = Some m8"
        and c8: "catalog_of m8 = catalog_of m7" by blast
      have r8: "ready inst m8" by (rule ready_step [OF r7 c8])
      from eq9_rows_total [OF v r8] obtain m9 where m9: "eq9_rows thr inst m8 = Some m9"
        and c9: "catalog_of m9 = catalog_of m8" by blast
      have r9: "ready inst m9" by (rule ready_step [OF r8 c9])
      from eq10_row_total [OF v r9] obtain m10 where m10: "eq10_row thr inst m9 = Some m10" by blast
      have "build_waes_model_thr thr inst ws = Some m10"
        by (simp add: build_waes_model_thr_def m0 m2 m3 Some m5 m6 m7 m8 m9 m10)
      moreover from Some m5 s4 s5 known_parents_iff [OF v] have "known_parents inst" by auto
      ultimately show ?thesis by simp
    qed
  qed
qed

section \<open>Row counts and independence of the mode\<close>

lemma for_loop_count:
  fixes c :: "'s \<Rightarrow> nat"
  assumes "for_loop f xs s = Some s'"
    and "\<And>x s s'. x \<in> set xs \<Longrightarrow> f x s = Some s' \<Longrightarrow> c s' = c s + d"
  shows "c s' = c s + length xs * d"
  using assms
proof (induction xs arbitrary: s)
  case Nil
  then show ?case by simp
next
  case (Cons x xs)
  from Cons.prems(1) obtain s1 where s1: "f x s = Some s1" and rest: "for_loop f xs s1 = Some s'"
    by (auto split: option.splits)
  have "c s' = c s1 + length xs * d" using rest Cons.prems(2) by (intro Cons.IH) auto
  moreover have "c s1 = c s + d" by (rule Cons.prems(2) [OF _ s1]) simp
  ultimately show ?case by simp
qed

lemma for_loop2_count:
  fixes c :: "'s \<Rightarrow> nat"
  assumes "for_loop (\<lambda>a. for_loop (f a) bs) as s = Some s'"
    and "\<And>a b s s'. a \<in> set as \<Longrightarrow> b \<in> set bs \<Longrightarrow> f a b s = Some s' \<Longrightarrow> c s' = c s + d"
  shows "c s' = c s + length as * (length bs * d)"
  using assms(1)
proof (rule for_loop_count)
  fix a s s' assume a: "a \<in> set as" and run: "for_loop (f a) bs s = Some s'"
  from run show "c s' = c s + length bs * d"
    by (rule for_loop_count) (rule assms(2) [OF a])
qed

lemma for_loop3_count:
  fixes c :: "'s \<Rightarrow> nat"
  assumes "for_loop (\<lambda>a. for_loop (\<lambda>b. for_loop (f a b) cs) bs) as s = Some s'"
    and "\<And>a b c' s s'. a \<in> set as \<Longrightarrow> b \<in> set bs \<Longrightarrow> c' \<in> set cs \<Longrightarrow> f a b c' s = Some s' \<Longrightarrow>
           c s' = c s + d"
  shows "c s' = c s + length as * (length bs * (length cs * d))"
  using assms(1)
proof (rule for_loop_count)
  fix a s s' assume a: "a \<in> set as" and run: "for_loop (\<lambda>b. for_loop (f a b) cs) bs s = Some s'"
  from run show "c s' = c s + length bs * (length cs * d)"
    by (rule for_loop2_count) (rule assms(2) [OF a])
qed

lemma add_row_count [simp]: "row_count (add_row thr coeffs lb ub m) = Suc (row_count m)"
  by (simp add: add_row_def row_count_def Let_def)

lemma eq2_rows_count:
  "eq2_rows thr inst ws m = Some m' \<Longrightarrow>
   row_count m' = row_count m + length (inst_N inst) * card (set (inst_B inst) \<inter> set (inst_A1 inst))"
  unfolding eq2_rows_def
  by (drule for_loop2_count [where c = row_count and d = 1]) (auto simp: bind_eq_Some_conv)

lemma eq3_rows_count:
  "eq3_rows thr inst ws m = Some m' \<Longrightarrow>
   row_count m' = row_count m + length (inst_N inst) * card (set (inst_B inst) \<inter> set (inst_A2 inst))"
  unfolding eq3_rows_def
  by (drule for_loop2_count [where c = row_count and d = 1]) (auto simp: bind_eq_Some_conv)

lemma eq4_rows_count:
  "eq4_rows thr inst ws m = Some m' \<Longrightarrow>
   row_count m' = row_count m + length (inst_N inst) * card (set (inst_C inst) \<inter> set (inst_A1 inst))"
  unfolding eq4_rows_def
  by (drule for_loop2_count [where c = row_count and d = 1]) (auto simp: bind_eq_Some_conv)

lemma eq5_rows_count:
  "eq5_rows thr inst ws m = Some m' \<Longrightarrow>
   row_count m' = row_count m + length (inst_N inst) * card (set (inst_C inst) \<inter> set (inst_A2 inst))"
  unfolding eq5_rows_def
  by (drule for_loop2_count [where c = row_count and d = 1]) (auto simp: bind_eq_Some_conv)

lemma eq6_rows_count:
  "eq6_rows thr inst m = Some m' \<Longrightarrow>
   row_count m' = row_count m + length (inst_N inst) * length (inst_M inst) * length (inst_A inst)"
  unfolding eq6_rows_def
  by (drule for_loop3_count [where c = row_count and d = 1]) (auto simp: bind_eq_Some_conv)

lemma eq7_rows_count:
  "eq7_rows thr inst m = Some m' \<Longrightarrow>
   row_count m' = row_count m + length (inst_N inst) * length (inst_M inst) * length (inst_T inst)"
  unfolding eq7_rows_def
  by (drule for_loop3_count [where c = row_count and d = 1]) (auto simp: bind_eq_Some_conv)

lemma eq8_rows_count:
  "eq8_rows thr inst m = Some m' \<Longrightarrow> row_count m' = row_count m + length (inst_N inst)"
  unfolding eq8_rows_def
  by (drule for_loop_count [where c = row_count and d = 1]) (auto simp: bind_eq_Some_conv)

lemma eq9_rows_count:
  "eq9_rows thr inst m = Some m' \<Longrightarrow>
   row_count m' = row_count m + length (inst_T inst) * length (inst_M1 inst)"
  unfolding eq9_rows_def
  by (drule for_loop2_count [where c = row_count and d = 1]) (auto simp: bind_eq_Some_conv)

lemma eq10_row_count: "eq10_row thr inst m = Some m' \<Longrightarrow> row_count m' = row_count m + 1"
  unfolding eq10_row_def by (auto simp: bind_eq_Some_conv)

lemma create_variables_row_count: "create_variables inst ws = Some m \<Longrightarrow> row_count m = 0"
  using create_variables_facts(6) [of inst ws m] by (simp add: csr_of_def row_count_def)

lemma build_row_count:
  assumes "build_waes_model_thr thr inst ws = Some m"
  shows "row_count m = total_rows inst"
  using assms unfolding build_waes_model_thr_def total_rows_def
  by (auto simp: bind_eq_Some_conv dest!: create_variables_row_count eq2_rows_count eq3_rows_count
      eq4_rows_count eq5_rows_count eq6_rows_count eq7_rows_count eq8_rows_count eq9_rows_count
      eq10_row_count)

lemma fold_rel:
  assumes "R s t" and "\<And>x s t. x \<in> set xs \<Longrightarrow> R s t \<Longrightarrow> R (f x s) (f x t)"
  shows "R (fold f xs s) (fold f xs t)"
  using assms by (induction xs arbitrary: s t) auto

lemma fold4_rel:
  assumes "R s t" and "\<And>a b c d s t. R s t \<Longrightarrow> R (f a b c d s) (f a b c d t)"
  shows "R (fold (\<lambda>a. fold (\<lambda>b. fold (\<lambda>c. fold (f a b c) ds) cs) bs) as s)
           (fold (\<lambda>a. fold (\<lambda>b. fold (\<lambda>c. fold (f a b c) ds) cs) bs) as t)"
  using assms(1)
proof (rule fold_rel)
  fix a s t assume "R s t"
  then show "R (fold (\<lambda>b. fold (\<lambda>c. fold (f a b c) ds) cs) bs s)
               (fold (\<lambda>b. fold (\<lambda>c. fold (f a b c) ds) cs) bs t)"
  proof (rule fold_rel)
    fix b s t assume "R s t"
    then show "R (fold (\<lambda>c. fold (f a b c) ds) cs s) (fold (\<lambda>c. fold (f a b c) ds) cs t)"
    proof (rule fold_rel)
      fix c s t assume "R s t"
      then show "R (fold (f a b c) ds s) (fold (f a b c) ds t)"
        by (rule fold_rel) (rule assms(2))
    qed
  qed
qed

lemma for_loop_rel:
  assumes "R s t" and "\<And>x s t. x \<in> set xs \<Longrightarrow> R s t \<Longrightarrow> rel_option R (f x s) (f x t)"
  shows "rel_option R (for_loop f xs s) (for_loop f xs t)"
  using assms
proof (induction xs arbitrary: s t)
  case Nil
  then show ?case by simp
next
  case (Cons x xs)
  from Cons.prems(2) [of x s t] Cons.prems(1) have step: "rel_option R (f x s) (f x t)" by simp
  show ?case
  proof (cases "f x s")
    case None
    with step have "f x t = None" by (cases "f x t") auto
    with None show ?thesis by simp
  next
    case (Some s1)
    with step obtain t1 where t1: "f x t = Some t1" "R s1 t1" by (cases "f x t") auto
    have "rel_option R (for_loop f xs s1) (for_loop f xs t1)"
      using t1(2) Cons.prems(2) by (intro Cons.IH) auto
    with Some t1(1) show ?thesis by simp
  qed
qed

lemma create_variables_mode:
  "rel_option (\<lambda>m1 m2. var_catalog m1 = var_catalog m2)
     (create_variables inst ws1) (create_variables inst ws2)"
proof -
  let ?R = "\<lambda>m1 m2. var_catalog m1 = var_catalog m2"
  have r0: "?R (empty_model ws1) (empty_model ws2)"
    by (simp add: var_catalog_def empty_model_def)
  have r1: "?R (create_x inst (empty_model ws1)) (create_x inst (empty_model ws2))"
    unfolding create_x_def using r0
    by (rule fold4_rel [where R = ?R]) (auto simp: var_catalog_def add_var_def)
  have r2: "?R (create_y_tija inst (create_x inst (empty_model ws1)))
               (create_y_tija inst (create_x inst (empty_model ws2)))"
    unfolding create_y_tija_def using r1
    by (rule fold4_rel [where R = ?R]) (auto simp: var_catalog_def add_var_def)
  show ?thesis
    unfolding create_variables_def create_y_tj_def using r2
  proof (rule for_loop_rel [where R = ?R])
    fix t and s s' :: WAESModel assume "?R s s'"
    then show "rel_option ?R
        (for_loop (\<lambda>j m. do {
           cost \<leftarrow> inst_c inst t;
           mult \<leftarrow> shift_cost_multiplier inst j;
           let (idx, m) = add_var (''y_t'' @ str_int t @ ''_j'' @ str_int j)
                            (cost * mult) (Num 0) (Num (of_int (inst_q inst))) ''I'' m;
           Some (m \<lparr> y_tj := dict_set (y_tj m) (t, j) idx \<rparr>)
         }) (inst_M inst) s)
        (for_loop (\<lambda>j m. do {
           cost \<leftarrow> inst_c inst t;
           mult \<leftarrow> shift_cost_multiplier inst j;
           let (idx, m) = add_var (''y_t'' @ str_int t @ ''_j'' @ str_int j)
                            (cost * mult) (Num 0) (Num (of_int (inst_q inst))) ''I'' m;
           Some (m \<lparr> y_tj := dict_set (y_tj m) (t, j) idx \<rparr>)
         }) (inst_M inst) s')"
    proof (rule for_loop_rel [where R = ?R])
      fix j and s s' :: WAESModel assume "?R s s'"
      then show "rel_option ?R
        (do {
           cost \<leftarrow> inst_c inst t;
           mult \<leftarrow> shift_cost_multiplier inst j;
           let (idx, m) = add_var (''y_t'' @ str_int t @ ''_j'' @ str_int j)
                            (cost * mult) (Num 0) (Num (of_int (inst_q inst))) ''I'' s;
           Some (m \<lparr> y_tj := dict_set (y_tj m) (t, j) idx \<rparr>)
         })
        (do {
           cost \<leftarrow> inst_c inst t;
           mult \<leftarrow> shift_cost_multiplier inst j;
           let (idx, m) = add_var (''y_t'' @ str_int t @ ''_j'' @ str_int j)
                            (cost * mult) (Num 0) (Num (of_int (inst_q inst))) ''I'' s';
           Some (m \<lparr> y_tj := dict_set (y_tj m) (t, j) idx \<rparr>)
         })"
        by (cases "inst_c inst t"; cases "shift_cost_multiplier inst j")
           (auto simp: var_catalog_def add_var_def)
    qed
  qed
qed

lemma var_catalog_of: "catalog_of m = catalog_of m0 \<Longrightarrow> var_catalog m = var_catalog m0"
  by (simp add: catalog_of_def var_catalog_def)

lemma dict_size: "distinct (map fst d) \<Longrightarrow> length d = card (fst ` set d)"
  using distinct_card [of "map fst d"] by simp

lemma card_N: "validate_instance inst \<Longrightarrow> card (set (inst_N inst)) = nat (inst_n inst)"
  by (simp add: valid_N)

section \<open>Rows of the matrix, sums of generators, loops in lock-step\<close>

lemma add_row_csr_ok: "csr_ok m \<Longrightarrow> csr_ok (add_row thr coeffs lb ub m)"
  by (auto simp: csr_ok_def add_row_def row_count_def Let_def nth_append le_Suc_eq)

lemma row_entries_add_row_old:
  assumes "csr_ok m" and "r < row_count m"
  shows "row_entries (add_row thr coeffs lb ub m) r = row_entries m r"
proof -
  let ?off = "csr_offsets m"
  from assms have len: "length ?off = Suc (row_count m)"
    and vals: "length (csr_values m) = length (csr_indices m)"
    and b1: "?off ! r \<le> length (csr_indices m)"
    and b2: "?off ! Suc r \<le> length (csr_indices m)"
    by (auto simp: csr_ok_def)
  have take_drop: "take (b - a) (drop a (xs @ ys)) = take (b - a) (drop a xs)"
    if "a \<le> length xs" "b \<le> length xs" for a b and xs ys :: "'a list"
    using that by simp
  show ?thesis
    using assms(2) len vals b1 b2
    by (simp add: row_entries_def add_row_def Let_def nth_append take_drop)
qed

lemma row_entries_add_row_new:
  assumes "csr_ok m"
  shows "row_entries (add_row thr coeffs lb ub m) (row_count m) = kept_entries thr coeffs"
  using assms
  by (simp add: csr_ok_def row_entries_def add_row_def Let_def nth_append zip_map_fst_snd)

lemma bounds_add_row:
  assumes "csr_ok m"
  shows "constraint_lb (add_row thr coeffs lb ub m) ! r =
           (if r < row_count m then constraint_lb m ! r else if r = row_count m then lb
            else constraint_lb (add_row thr coeffs lb ub m) ! r)"
    and "constraint_ub (add_row thr coeffs lb ub m) ! r =
           (if r < row_count m then constraint_ub m ! r else if r = row_count m then ub
            else constraint_ub (add_row thr coeffs lb ub m) ! r)"
  using assms by (auto simp: csr_ok_def add_row_def Let_def nth_append row_count_def)

lemma rows_satisfied_add_row:
  assumes "csr_ok m"
  shows "rows_satisfied (add_row thr coeffs lb ub m) z \<longleftrightarrow>
         rows_satisfied m z \<and> within_bounds lb ub (dot (kept_entries thr coeffs) z)"
proof -
  let ?m' = "add_row thr coeffs lb ub m"
  have old: "within_bounds (constraint_lb ?m' ! r) (constraint_ub ?m' ! r) (dot (row_entries ?m' r) z) =
             within_bounds (constraint_lb m ! r) (constraint_ub m ! r) (dot (row_entries m r) z)"
    if "r < row_count m" for r
    using that bounds_add_row [OF assms, of thr coeffs lb ub r]
      row_entries_add_row_old [OF assms that, of thr coeffs lb ub] by simp
  have new: "within_bounds (constraint_lb ?m' ! row_count m) (constraint_ub ?m' ! row_count m)
               (dot (row_entries ?m' (row_count m)) z) =
             within_bounds lb ub (dot (kept_entries thr coeffs) z)"
    using bounds_add_row [OF assms, of thr coeffs lb ub "row_count m"]
      row_entries_add_row_new [OF assms, of thr coeffs lb ub] by simp
  have "rows_satisfied ?m' z \<longleftrightarrow>
        (\<forall>r < Suc (row_count m).
           within_bounds (constraint_lb ?m' ! r) (constraint_ub ?m' ! r) (dot (row_entries ?m' r) z))"
    by (auto simp: rows_satisfied_def)
  also have "\<dots> \<longleftrightarrow>
        (\<forall>r < row_count m.
           within_bounds (constraint_lb m ! r) (constraint_ub m ! r) (dot (row_entries m r) z)) \<and>
        within_bounds lb ub (dot (kept_entries thr coeffs) z)"
    using old new by (auto simp: less_Suc_eq)
  also have "\<dots> \<longleftrightarrow> rows_satisfied m z \<and> within_bounds lb ub (dot (kept_entries thr coeffs) z)"
    by (auto simp: rows_satisfied_def)
  finally show ?thesis .
qed

lemma dot_Nil [simp]: "dot [] z = 0"
  by (simp add: dot_def)

lemma dot_Cons [simp]: "dot ((idx, c) # es) z = c * z ! idx + dot es z"
  by (simp add: dot_def)

lemma dot_insort: "dot (insort_key fst e es) z = dot (e # es) z"
  by (induction es) (auto simp: dot_def)

lemma dot_sort: "dot (sort_key fst es) z = dot es z"
proof (induction es)
  case Nil
  show ?case by simp
next
  case (Cons e es)
  obtain idx c where e: "e = (idx, c)" by (cases e)
  have "dot (sort_key fst (e # es)) z = dot (e # sort_key fst es) z"
    by (simp add: dot_insort)
  with Cons e show ?case by simp
qed

lemma dot_filter_nonzero: "dot (filter (\<lambda>(idx, c). c \<noteq> 0) es) z = dot es z"
  by (induction es) auto

lemma dot_kept_zero: "dot (kept_entries 0 coeffs) z = dot coeffs z"
  by (simp add: kept_entries_def dot_filter_nonzero dot_sort)

lemma dot_bump:
  "dot (dict_set row idx (dict_get row idx 0 + c)) z = dot row z + c * z ! idx"
proof (induction row)
  case Nil
  show ?case by (simp add: dict_get_def)
next
  case (Cons e row)
  obtain idx' c' where e: "e = (idx', c')" by (cases e)
  show ?case
  proof (cases "idx' = idx")
    case True
    then show ?thesis by (simp add: e dict_get_def algebra_simps)
  next
    case False
    with Cons show ?thesis by (simp add: e dict_get_def)
  qed
qed

lemma dot_drop:
  "dot (dict_set row idx (dict_get row idx 0 - c)) z = dot row z - c * z ! idx"
  using dot_bump [of row idx "- c" z] by simp

lemma py_sum_Nil [simp]: "py_sum [] = Some 0"
  by (simp add: py_sum_def)

lemma py_sum_Cons:
  "py_sum (t # ts) = (case t of None \<Rightarrow> None | Some v \<Rightarrow> map_option (\<lambda>s. v + s) (py_sum ts))"
  by (cases t; cases "those ts") (simp_all add: py_sum_def)

lemma py_sum_append:
  "py_sum (ts @ us) =
     (case py_sum ts of None \<Rightarrow> None | Some a \<Rightarrow> map_option (\<lambda>s. a + s) (py_sum us))"
proof (induction ts)
  case Nil
  show ?case by (cases "py_sum us") simp_all
next
  case (Cons t ts)
  show ?case
    by (cases t; cases "py_sum ts"; cases "py_sum us") (simp_all add: py_sum_Cons Cons)
qed

lemma py_sum_concat: "py_sum (concat tss) = py_sum (map py_sum tss)"
proof (induction tss)
  case Nil
  show ?case by simp
next
  case (Cons ts tss)
  show ?case
    by (cases "py_sum ts") (simp_all add: py_sum_append py_sum_Cons Cons)
qed

lemma unpack_lookup:
  assumes "unpack_values d z = Some sd"
  shows "dict_lookup sd key = map_option (\<lambda>idx. z ! idx) (dict_lookup d key)"
  using assms
proof (induction d arbitrary: sd)
  case Nil
  then show ?case by (simp add: unpack_values_def dict_lookup_def)
next
  case (Cons p d)
  obtain k idx where p: "p = (k, idx)" by (cases p)
  from Cons.prems obtain rest where
    rest: "unpack_values d z = Some rest" and sd: "sd = (k, z ! idx) # rest"
    by (auto simp: unpack_values_def p split: if_splits option.splits)
  from Cons.IH [OF rest] show ?case
    by (simp add: sd p dict_lookup_def)
qed

lemma row_loop_sum:
  assumes "for_loop step es row = Some row'"
    and "\<And>e r r'. e \<in> set es \<Longrightarrow> step e r = Some r' \<Longrightarrow>
           \<exists>v. term e = Some v \<and> dot r' z = dot r z + c * v"
  shows "\<exists>V. py_sum (map term es) = Some V \<and> dot row' z = dot row z + c * V"
  using assms
proof (induction es arbitrary: row)
  case Nil
  then show ?case by simp
next
  case (Cons e es)
  from Cons.prems(1) obtain r1 where r1: "step e row = Some r1" and rest: "for_loop step es r1 = Some row'"
    by (auto split: option.splits)
  from Cons.prems(2) [OF _ r1] obtain v where v: "term e = Some v" "dot r1 z = dot row z + c * v"
    by auto
  from Cons.IH [OF rest] Cons.prems(2) obtain V where
    V: "py_sum (map term es) = Some V" "dot row' z = dot r1 z + c * V" by auto
  show ?case
    using v V by (simp add: py_sum_Cons algebra_simps)
qed

lemma row_loop2_sum:
  assumes "for_loop (\<lambda>a. for_loop (step a) bs) as row = Some row'"
    and "\<And>a b r r'. a \<in> set as \<Longrightarrow> b \<in> set bs \<Longrightarrow> step a b r = Some r' \<Longrightarrow>
           \<exists>v. term a b = Some v \<and> dot r' z = dot r z + c * v"
  shows "\<exists>V. py_sum (concat (map (\<lambda>a. map (term a) bs) as)) = Some V \<and>
             dot row' z = dot row z + c * V"
proof -
  have "\<exists>V. py_sum (map (\<lambda>a. py_sum (map (term a) bs)) as) = Some V \<and>
             dot row' z = dot row z + c * V"
    using assms(1)
  proof (rule row_loop_sum)
    fix a r r' assume a: "a \<in> set as" and run: "for_loop (step a) bs r = Some r'"
    from run show "\<exists>v. py_sum (map (term a) bs) = Some v \<and> dot r' z = dot r z + c * v"
      by (rule row_loop_sum) (rule assms(2) [OF a])
  qed
  then show ?thesis by (simp add: py_sum_concat comp_def)
qed

lemma row_loop3_sum:
  assumes "for_loop (\<lambda>a. for_loop (\<lambda>b. for_loop (step a b) cs) bs) as row = Some row'"
    and "\<And>a b c' r r'. a \<in> set as \<Longrightarrow> b \<in> set bs \<Longrightarrow> c' \<in> set cs \<Longrightarrow> step a b c' r = Some r' \<Longrightarrow>
           \<exists>v. term a b c' = Some v \<and> dot r' z = dot r z + c * v"
  shows "\<exists>V. py_sum (concat (map (\<lambda>a. concat (map (\<lambda>b. map (term a b) cs) bs)) as)) = Some V \<and>
             dot row' z = dot row z + c * V"
proof -
  have "\<exists>V. py_sum (map (\<lambda>a. py_sum (concat (map (\<lambda>b. map (term a b) cs) bs))) as) = Some V \<and>
             dot row' z = dot row z + c * V"
    using assms(1)
  proof (rule row_loop_sum)
    fix a r r' assume a: "a \<in> set as" and run: "for_loop (\<lambda>b. for_loop (step a b) cs) bs r = Some r'"
    from run show "\<exists>v. py_sum (concat (map (\<lambda>b. map (term a b) cs) bs)) = Some v \<and>
                       dot r' z = dot r z + c * v"
      by (rule row_loop2_sum) (rule assms(2) [OF a])
  qed
  then show ?thesis by (simp add: py_sum_concat [of "map _ as"] comp_def)
qed

lemma lockstep:
  assumes "for_loop f es s = Some s'" and "I s"
    and "\<And>e s s'. e \<in> set es \<Longrightarrow> I s \<Longrightarrow> f e s = Some s' \<Longrightarrow>
           I s' \<and> (Sat s' \<longrightarrow> Sat s \<and> (\<forall>t. g e t = Some t))"
  shows "I s' \<and> (Sat s' \<longrightarrow> Sat s \<and> (\<forall>t. for_loop g es t = Some t))"
  using assms
proof (induction es arbitrary: s)
  case Nil
  then show ?case by simp
next
  case (Cons e es)
  from Cons.prems(1) obtain s1 where s1: "f e s = Some s1" and rest: "for_loop f es s1 = Some s'"
    by (auto split: option.splits)
  from Cons.prems(3) [OF _ Cons.prems(2) s1]
  have step: "I s1" "Sat s1 \<longrightarrow> Sat s \<and> (\<forall>t. g e t = Some t)" by simp_all
  have ih: "I s' \<and> (Sat s' \<longrightarrow> Sat s1 \<and> (\<forall>t. for_loop g es t = Some t))"
  proof (rule Cons.IH [OF rest step(1)])
    fix e' s s' assume "e' \<in> set es" and "I s" and "f e' s = Some s'"
    then show "I s' \<and> (Sat s' \<longrightarrow> Sat s \<and> (\<forall>t. g e' t = Some t))"
      using Cons.prems(3) [of e' s s'] by simp
  qed
  show ?case using step ih by simp
qed

lemma lockstep2:
  assumes "for_loop (\<lambda>a. for_loop (f a) bs) as s = Some s'" and "I s"
    and "\<And>a b s s'. a \<in> set as \<Longrightarrow> b \<in> set bs \<Longrightarrow> I s \<Longrightarrow> f a b s = Some s' \<Longrightarrow>
           I s' \<and> (Sat s' \<longrightarrow> Sat s \<and> (\<forall>t. g a b t = Some t))"
  shows "I s' \<and> (Sat s' \<longrightarrow> Sat s \<and> (\<forall>t. for_loop (\<lambda>a. for_loop (g a) bs) as t = Some t))"
  using assms(1,2)
proof (rule lockstep)
  fix a s s' assume a: "a \<in> set as" and s: "I s" and run: "for_loop (f a) bs s = Some s'"
  from run s show "I s' \<and> (Sat s' \<longrightarrow> Sat s \<and> (\<forall>t. for_loop (g a) bs t = Some t))"
    by (rule lockstep) (rule assms(3) [OF a])
qed

lemma lockstep3:
  assumes "for_loop (\<lambda>a. for_loop (\<lambda>b. for_loop (f a b) cs) bs) as s = Some s'" and "I s"
    and "\<And>a b c s s'. a \<in> set as \<Longrightarrow> b \<in> set bs \<Longrightarrow> c \<in> set cs \<Longrightarrow> I s \<Longrightarrow> f a b c s = Some s' \<Longrightarrow>
           I s' \<and> (Sat s' \<longrightarrow> Sat s \<and> (\<forall>t. g a b c t = Some t))"
  shows "I s' \<and> (Sat s' \<longrightarrow> Sat s \<and>
           (\<forall>t. for_loop (\<lambda>a. for_loop (\<lambda>b. for_loop (g a b) cs) bs) as t = Some t))"
  using assms(1,2)
proof (rule lockstep)
  fix a s s' assume a: "a \<in> set as" and s: "I s"
    and run: "for_loop (\<lambda>b. for_loop (f a b) cs) bs s = Some s'"
  from run s show "I s' \<and> (Sat s' \<longrightarrow> Sat s \<and> (\<forall>t. for_loop (\<lambda>b. for_loop (g a b) cs) bs t = Some t))"
    by (rule lockstep2) (rule assms(3) [OF a])
qed

section \<open>The audit follows the encoder row by row\<close>

lemma check_eq_pass: "\<bar>lhs - rhs\<bar> \<le> tol \<Longrightarrow> check_eq tol eq lhs rhs det t = t"
  by (simp add: check_eq_def Let_def)

lemma check_le_pass: "lhs - rhs \<le> tol \<Longrightarrow> check_le tol eq lhs rhs det t = t"
  by (simp add: check_le_def Let_def)

lemma check_ge_pass: "rhs - lhs \<le> tol \<Longrightarrow> check_ge tol eq lhs rhs det t = t"
  by (simp add: check_ge_def Let_def)

lemma linked_catalog: "catalog_of s = catalog_of m \<Longrightarrow> linked s solved z = linked m solved z"
  by (simp add: linked_def catalog_of_def)

lemma audit_until_a1_eq: "audit_until_a1 inst i a ws = until_a1 inst i a ws"
  by (simp add: audit_until_a1_def until_a1_def)

lemma audit_until_a2_eq: "audit_until_a2 inst i a ws = until_a2 inst i a ws"
  by (simp add: audit_until_a2_def until_a2_def)

lemma window_row_lhs:
  assumes link: "unpack_values (x_aijk m) z = Some (solved_x_aijk solved)"
    and run: "window_row inst m a i until row = Some row'"
  shows "\<exists>V. window_lhs inst solved a i until = Some V \<and> dot row' z = dot row z + V"
proof -
  have "\<exists>V. py_sum (concat (map (\<lambda>j. map (\<lambda>k. do {
                  x \<leftarrow> dict_lookup (solved_x_aijk solved) (a, i, j, k);
                  bkj \<leftarrow> inst_b inst (k, j);
                  Some (x * of_int bkj) }) [i .. until]) (inst_M inst))) = Some V \<and>
            dot row' z = dot row z + 1 * V"
    using run unfolding window_row_def
  proof (rule row_loop2_sum)
    fix j k and r r' :: row
    assume "do {
         idx \<leftarrow> dict_lookup (x_aijk m) (a, i, j, k);
         bkj \<leftarrow> inst_b inst (k, j);
         Some (dict_set r idx (dict_get r idx 0 + of_int bkj))
       } = Some r'"
    then obtain idx bkj where idx: "dict_lookup (x_aijk m) (a, i, j, k) = Some idx"
      and bkj: "inst_b inst (k, j) = Some bkj"
      and r': "r' = dict_set r idx (dict_get r idx 0 + of_int bkj)"
      by (auto simp: bind_eq_Some_conv)
    from unpack_lookup [OF link, of "(a, i, j, k)"] idx
    have "dict_lookup (solved_x_aijk solved) (a, i, j, k) = Some (z ! idx)" by simp
    then show "\<exists>v. do {
                  x \<leftarrow> dict_lookup (solved_x_aijk solved) (a, i, j, k);
                  bkj \<leftarrow> inst_b inst (k, j);
                  Some (x * of_int bkj) } = Some v \<and> dot r' z = dot r z + 1 * v"
      by (simp add: bkj r' dot_bump)
  qed
  then show ?thesis by (simp add: window_lhs_def)
qed

lemma parents_row_rhs:
  assumes link: "unpack_values (x_aijk m) z = Some (solved_x_aijk solved)"
    and run: "parents_row inst m a k row = Some row'"
  shows "\<exists>V. dependency_rhs inst solved a k = Some V \<and> dot row' z = dot row z - V"
proof -
  from run obtain parents where ga: "inst_Ga inst a = Some parents"
    and loop: "for_loop (\<lambda>a_parent row. do {
           coeff \<leftarrow> inst_s inst (a, a_parent);
           for_loop (\<lambda>j. for_loop (\<lambda>i row. do {
               idx \<leftarrow> dict_lookup (x_aijk m) (a_parent, i, j, k);
               Some (dict_set row idx (dict_get row idx 0 - coeff))
             }) (inst_N inst)) (inst_M inst) row
         }) parents row = Some row'"
    by (auto simp: parents_row_def bind_eq_Some_conv)
  have "\<exists>V. py_sum (map (\<lambda>a_parent. do {
                    share \<leftarrow> inst_s inst (a, a_parent);
                    volume \<leftarrow> py_sum (concat (map (\<lambda>j. map (\<lambda>i.
                                 dict_lookup (solved_x_aijk solved) (a_parent, i, j, k))
                               (inst_N inst)) (inst_M inst)));
                    Some (share * volume) }) parents) = Some V \<and>
            dot row' z = dot row z + (- 1) * V"
    using loop
  proof (rule row_loop_sum)
    fix p and r r' :: row
    assume "do {
           coeff \<leftarrow> inst_s inst (a, p);
           for_loop (\<lambda>j. for_loop (\<lambda>i row. do {
               idx \<leftarrow> dict_lookup (x_aijk m) (p, i, j, k);
               Some (dict_set row idx (dict_get row idx 0 - coeff))
             }) (inst_N inst)) (inst_M inst) r
         } = Some r'"
    then obtain coeff where coeff: "inst_s inst (a, p) = Some coeff"
      and inner: "for_loop (\<lambda>j. for_loop (\<lambda>i row. do {
               idx \<leftarrow> dict_lookup (x_aijk m) (p, i, j, k);
               Some (dict_set row idx (dict_get row idx 0 - coeff))
             }) (inst_N inst)) (inst_M inst) r = Some r'"
      by (auto simp: bind_eq_Some_conv)
    have "\<exists>V. py_sum (concat (map (\<lambda>j. map (\<lambda>i.
                   dict_lookup (solved_x_aijk solved) (p, i, j, k)) (inst_N inst)) (inst_M inst))) = Some V \<and>
              dot r' z = dot r z + (- coeff) * V"
      using inner
    proof (rule row_loop2_sum)
      fix j i and r r' :: row
      assume "do {
               idx \<leftarrow> dict_lookup (x_aijk m) (p, i, j, k);
               Some (dict_set r idx (dict_get r idx 0 - coeff))
             } = Some r'"
      then obtain idx where idx: "dict_lookup (x_aijk m) (p, i, j, k) = Some idx"
        and r': "r' = dict_set r idx (dict_get r idx 0 - coeff)"
        by (auto simp: bind_eq_Some_conv)
      from unpack_lookup [OF link, of "(p, i, j, k)"] idx
      have "dict_lookup (solved_x_aijk solved) (p, i, j, k) = Some (z ! idx)" by simp
      then show "\<exists>v. dict_lookup (solved_x_aijk solved) (p, i, j, k) = Some v \<and>
                    dot r' z = dot r z + (- coeff) * v"
        by (simp add: r' dot_drop)
    qed
    then obtain V where V: "py_sum (concat (map (\<lambda>j. map (\<lambda>i.
                   dict_lookup (solved_x_aijk solved) (p, i, j, k)) (inst_N inst)) (inst_M inst))) = Some V"
      "dot r' z = dot r z + (- coeff) * V" by blast
    show "\<exists>v. do {
                    share \<leftarrow> inst_s inst (a, p);
                    volume \<leftarrow> py_sum (concat (map (\<lambda>j. map (\<lambda>i.
                                 dict_lookup (solved_x_aijk solved) (p, i, j, k))
                               (inst_N inst)) (inst_M inst)));
                    Some (share * volume) } = Some v \<and> dot r' z = dot r z + (- 1) * v"
      using coeff V by simp
  qed
  then show ?thesis by (simp add: dependency_rhs_def ga)
qed

lemma add_row_step:
  assumes "csr_ok s \<and> catalog_of s = catalog_of m"
  shows "(csr_ok (add_row 0 row lb ub s) \<and> catalog_of (add_row 0 row lb ub s) = catalog_of m) \<and>
         (rows_satisfied (add_row 0 row lb ub s) z \<longleftrightarrow>
            rows_satisfied s z \<and> within_bounds lb ub (dot row z))"
proof -
  from assms have ok: "csr_ok s" and cat: "catalog_of s = catalog_of m" by simp_all
  show ?thesis
    unfolding rows_satisfied_add_row [OF ok] dot_kept_zero
    using cat by (simp add: add_row_csr_ok [OF ok])
qed

lemma linked_step:
  assumes "csr_ok s \<and> catalog_of s = catalog_of m" and "linked m solved z"
  shows "unpack_values (x_aijk s) z = Some (solved_x_aijk solved)"
    and "unpack_values (y_tija s) z = Some (solved_y_tija solved)"
    and "unpack_values (y_tj s) z = Some (solved_y_tj solved)"
proof -
  from assms(1) have cat: "catalog_of s = catalog_of m" by simp
  from assms(2) have "linked s solved z" unfolding linked_catalog [OF cat] .
  then show "unpack_values (x_aijk s) z = Some (solved_x_aijk solved)"
    and "unpack_values (y_tija s) z = Some (solved_y_tija solved)"
    and "unpack_values (y_tj s) z = Some (solved_y_tj solved)"
    by (simp_all add: linked_def)
qed

lemma entry_bump:
  assumes "unpack_values d z = Some sd"
    and "do { idx \<leftarrow> dict_lookup d key;
              Some (dict_set r idx (dict_get r idx 0 + c)) } = Some r'"
  shows "\<exists>v. dict_lookup sd key = Some v \<and> dot r' z = dot r z + c * v"
proof -
  from assms(2) obtain idx where idx: "dict_lookup d key = Some idx"
    and r': "r' = dict_set r idx (dict_get r idx 0 + c)"
    by (auto simp: bind_eq_Some_conv)
  from unpack_lookup [OF assms(1), of key] idx
  have "dict_lookup sd key = Some (z ! idx)" by simp
  then show ?thesis by (simp add: r' dot_bump)
qed

lemma entry_drop:
  assumes "unpack_values d z = Some sd"
    and "do { idx \<leftarrow> dict_lookup d key;
              Some (dict_set r idx (dict_get r idx 0 - c)) } = Some r'"
  shows "\<exists>v. dict_lookup sd key = Some v \<and> dot r' z = dot r z + (- c) * v"
proof -
  from assms(2) obtain idx where idx: "dict_lookup d key = Some idx"
    and r': "r' = dict_set r idx (dict_get r idx 0 - c)"
    by (auto simp: bind_eq_Some_conv)
  from unpack_lookup [OF assms(1), of key] idx
  have "dict_lookup sd key = Some (z ! idx)" by simp
  then show ?thesis by (simp add: r' dot_drop)
qed

lemma demand_lockstep:
  assumes run: "for_loop (\<lambda>i. for_loop (\<lambda>a m. do {
                   until \<leftarrow> U i a;
                   row \<leftarrow> window_row inst m a i until [];
                   rhs \<leftarrow> inst_d inst (a, i);
                   Some (add_row 0 row (Num rhs) (Num rhs) m)
                 }) as) ns m = Some m'"
    and ok: "csr_ok m" and link: "linked m solved z" and tol: "0 \<le> tol"
  shows "(csr_ok m' \<and> catalog_of m' = catalog_of m) \<and>
         (rows_satisfied m' z \<longrightarrow> rows_satisfied m z \<and>
            (\<forall>t. for_loop (\<lambda>i. for_loop (\<lambda>a t. do {
                     until \<leftarrow> U i a;
                     lhs \<leftarrow> window_lhs inst solved a i until;
                     rhs \<leftarrow> inst_d inst (a, i);
                     Some (check_eq tol tag lhs rhs (det i a) t)
                   }) as) ns t = Some t))"
proof (rule lockstep2 [where I = "\<lambda>s. csr_ok s \<and> catalog_of s = catalog_of m"
      and Sat = "\<lambda>s. rows_satisfied s z", OF run])
  show "csr_ok m \<and> catalog_of m = catalog_of m" using ok by simp
next
  fix i a and s s' :: WAESModel
  assume inv: "csr_ok s \<and> catalog_of s = catalog_of m"
    and step: "do {
         until \<leftarrow> U i a;
         row \<leftarrow> window_row inst s a i until [];
         rhs \<leftarrow> inst_d inst (a, i);
         Some (add_row 0 row (Num rhs) (Num rhs) s)
       } = Some s'"
  from step obtain u row rhs where u: "U i a = Some u"
    and row: "window_row inst s a i u [] = Some row" and rhs: "inst_d inst (a, i) = Some rhs"
    and s': "s' = add_row 0 row (Num rhs) (Num rhs) s"
    by (auto simp: bind_eq_Some_conv)
  note lx = linked_step(1) [OF inv link]
  from window_row_lhs [OF lx row] obtain V where
    V: "window_lhs inst solved a i u = Some V" and dV: "dot row z = V" by auto
  have sat: "rows_satisfied s' z \<longleftrightarrow> rows_satisfied s z \<and> V = rhs"
    and inv': "csr_ok s' \<and> catalog_of s' = catalog_of m"
    using add_row_step [OF inv, of row "Num rhs" "Num rhs" z]
    by (auto simp: s' within_bounds_def dV)
  have aud: "do {
             until \<leftarrow> U i a;
             lhs \<leftarrow> window_lhs inst solved a i until;
             rhs \<leftarrow> inst_d inst (a, i);
             Some (check_eq tol tag lhs rhs (det i a) t)
           } = Some t" if "V = rhs" for t
    using that tol by (simp add: u V rhs check_eq_pass)
  show "(csr_ok s' \<and> catalog_of s' = catalog_of m) \<and>
        (rows_satisfied s' z \<longrightarrow> rows_satisfied s z \<and>
          (\<forall>t. do {
             until \<leftarrow> U i a;
             lhs \<leftarrow> window_lhs inst solved a i until;
             rhs \<leftarrow> inst_d inst (a, i);
             Some (check_eq tol tag lhs rhs (det i a) t)
           } = Some t))"
    using inv' sat aud by blast
qed

lemma eq2_lockstep:
  assumes "eq2_rows 0 inst ws m = Some m'" and "csr_ok m" and "linked m solved z" and "0 \<le> tol"
  shows "(csr_ok m' \<and> catalog_of m' = catalog_of m) \<and>
         (rows_satisfied m' z \<longrightarrow> rows_satisfied m z \<and> (\<forall>t. audit_eq2 inst solved ws tol t = Some t))"
  unfolding audit_eq2_def audit_until_a1_eq
  by (rule demand_lockstep [OF assms(1) [unfolded eq2_rows_def] assms(2-4)])

lemma eq3_lockstep:
  assumes "eq3_rows 0 inst ws m = Some m'" and "csr_ok m" and "linked m solved z" and "0 \<le> tol"
  shows "(csr_ok m' \<and> catalog_of m' = catalog_of m) \<and>
         (rows_satisfied m' z \<longrightarrow> rows_satisfied m z \<and> (\<forall>t. audit_eq3 inst solved ws tol t = Some t))"
  unfolding audit_eq3_def audit_until_a2_eq
  by (rule demand_lockstep [OF assms(1) [unfolded eq3_rows_def] assms(2-4)])

lemma dependent_lockstep:
  assumes run: "for_loop (\<lambda>k. for_loop (\<lambda>a m. do {
                   until \<leftarrow> U k a;
                   row \<leftarrow> window_row inst m a k until [];
                   row \<leftarrow> parents_row inst m a k row;
                   Some (add_row 0 row (Num 0) Inf m)
                 }) as) ns m = Some m'"
    and ok: "csr_ok m" and link: "linked m solved z" and tol: "0 \<le> tol"
  shows "(csr_ok m' \<and> catalog_of m' = catalog_of m) \<and>
         (rows_satisfied m' z \<longrightarrow> rows_satisfied m z \<and>
            (\<forall>t. for_loop (\<lambda>k. for_loop (\<lambda>a t. do {
                     until \<leftarrow> U k a;
                     lhs \<leftarrow> window_lhs inst solved a k until;
                     rhs \<leftarrow> dependency_rhs inst solved a k;
                     Some (check_ge tol tag lhs rhs (det k a) t)
                   }) as) ns t = Some t))"
proof (rule lockstep2 [where I = "\<lambda>s. csr_ok s \<and> catalog_of s = catalog_of m"
      and Sat = "\<lambda>s. rows_satisfied s z", OF run])
  show "csr_ok m \<and> catalog_of m = catalog_of m" using ok by simp
next
  fix k a and s s' :: WAESModel
  assume inv: "csr_ok s \<and> catalog_of s = catalog_of m"
    and step: "do {
         until \<leftarrow> U k a;
         row \<leftarrow> window_row inst s a k until [];
         row \<leftarrow> parents_row inst s a k row;
         Some (add_row 0 row (Num 0) Inf s)
       } = Some s'"
  from step obtain u row1 row2 where u: "U k a = Some u"
    and row1: "window_row inst s a k u [] = Some row1"
    and row2: "parents_row inst s a k row1 = Some row2"
    and s': "s' = add_row 0 row2 (Num 0) Inf s"
    by (auto simp: bind_eq_Some_conv)
  note lx = linked_step(1) [OF inv link]
  from window_row_lhs [OF lx row1] obtain V1 where
    V1: "window_lhs inst solved a k u = Some V1" and d1: "dot row1 z = V1" by auto
  from parents_row_rhs [OF lx row2] obtain V2 where
    V2: "dependency_rhs inst solved a k = Some V2" and d2: "dot row2 z = V1 - V2"
    by (auto simp: d1)
  have sat: "rows_satisfied s' z \<longleftrightarrow> rows_satisfied s z \<and> V2 \<le> V1"
    and inv': "csr_ok s' \<and> catalog_of s' = catalog_of m"
    using add_row_step [OF inv, of row2 "Num 0" Inf z]
    by (auto simp: s' within_bounds_def d2)
  have aud: "do {
             until \<leftarrow> U k a;
             lhs \<leftarrow> window_lhs inst solved a k until;
             rhs \<leftarrow> dependency_rhs inst solved a k;
             Some (check_ge tol tag lhs rhs (det k a) t)
           } = Some t" if "V2 \<le> V1" for t
    using that tol by (simp add: u V1 V2 check_ge_pass)
  show "(csr_ok s' \<and> catalog_of s' = catalog_of m) \<and>
        (rows_satisfied s' z \<longrightarrow> rows_satisfied s z \<and>
          (\<forall>t. do {
             until \<leftarrow> U k a;
             lhs \<leftarrow> window_lhs inst solved a k until;
             rhs \<leftarrow> dependency_rhs inst solved a k;
             Some (check_ge tol tag lhs rhs (det k a) t)
           } = Some t))"
    using inv' sat aud by blast
qed

lemma eq4_lockstep:
  assumes "eq4_rows 0 inst ws m = Some m'" and "csr_ok m" and "linked m solved z" and "0 \<le> tol"
  shows "(csr_ok m' \<and> catalog_of m' = catalog_of m) \<and>
         (rows_satisfied m' z \<longrightarrow> rows_satisfied m z \<and> (\<forall>t. audit_eq4 inst solved ws tol t = Some t))"
  unfolding audit_eq4_def audit_until_a1_eq
  by (rule dependent_lockstep [OF assms(1) [unfolded eq4_rows_def] assms(2-4)])

lemma eq5_lockstep:
  assumes "eq5_rows 0 inst ws m = Some m'" and "csr_ok m" and "linked m solved z" and "0 \<le> tol"
  shows "(csr_ok m' \<and> catalog_of m' = catalog_of m) \<and>
         (rows_satisfied m' z \<longrightarrow> rows_satisfied m z \<and> (\<forall>t. audit_eq5 inst solved ws tol t = Some t))"
  unfolding audit_eq5_def audit_until_a2_eq
  by (rule dependent_lockstep [OF assms(1) [unfolded eq5_rows_def] assms(2-4)])

lemma eq6_lockstep:
  assumes run: "eq6_rows 0 inst m = Some m'" and ok: "csr_ok m"
    and link: "linked m solved z" and tol: "0 \<le> tol"
  shows "(csr_ok m' \<and> catalog_of m' = catalog_of m) \<and>
         (rows_satisfied m' z \<longrightarrow> rows_satisfied m z \<and> (\<forall>t. audit_eq6 inst solved tol t = Some t))"
  unfolding audit_eq6_def
proof (rule lockstep3 [where I = "\<lambda>s. csr_ok s \<and> catalog_of s = catalog_of m"
      and Sat = "\<lambda>s. rows_satisfied s z", OF run [unfolded eq6_rows_def]])
  show "csr_ok m \<and> catalog_of m = catalog_of m" using ok by simp
next
  fix k j a and s s' :: WAESModel
  assume inv: "csr_ok s \<and> catalog_of s = catalog_of m"
    and step: "do {
         row \<leftarrow> for_loop (\<lambda>i row. do {
                   idx \<leftarrow> dict_lookup (x_aijk s) (a, i, j, k);
                   Some (dict_set row idx (dict_get row idx 0 + 1))
                 }) [1 .. k] [];
         profiles \<leftarrow> inst_Ta inst a;
         row \<leftarrow> for_loop (\<lambda>t row. do {
                   idx \<leftarrow> dict_lookup (y_tija s) (t, k, j, a);
                   Some (dict_set row idx (dict_get row idx 0 - 1))
                 }) profiles row;
         Some (add_row 0 row NInf (Num 0) s)
       } = Some s'"
  from step obtain row1 profiles row2 where
    row1: "for_loop (\<lambda>i row. do {
                   idx \<leftarrow> dict_lookup (x_aijk s) (a, i, j, k);
                   Some (dict_set row idx (dict_get row idx 0 + 1))
                 }) [1 .. k] ([] :: row) = Some row1"
    and profiles: "inst_Ta inst a = Some profiles"
    and row2: "for_loop (\<lambda>t row. do {
                   idx \<leftarrow> dict_lookup (y_tija s) (t, k, j, a);
                   Some (dict_set row idx (dict_get row idx 0 - 1))
                 }) profiles row1 = Some row2"
    and s': "s' = add_row 0 row2 NInf (Num 0) s"
    by (auto simp: bind_eq_Some_conv)
  note lx = linked_step(1) [OF inv link] and ly = linked_step(2) [OF inv link]
  have "\<exists>V. py_sum (map (\<lambda>i. dict_lookup (solved_x_aijk solved) (a, i, j, k)) [1 .. k]) = Some V \<and>
            dot row1 z = dot [] z + 1 * V"
    using row1 by (rule row_loop_sum) (rule entry_bump [OF lx])
  then obtain V1 where
    V1: "py_sum (map (\<lambda>i. dict_lookup (solved_x_aijk solved) (a, i, j, k)) [1 .. k]) = Some V1"
    and d1: "dot row1 z = V1" by auto
  have "\<exists>V. py_sum (map (\<lambda>t. dict_lookup (solved_y_tija solved) (t, k, j, a)) profiles) = Some V \<and>
            dot row2 z = dot row1 z + (- 1) * V"
    using row2 by (rule row_loop_sum) (rule entry_drop [OF ly])
  then obtain V2 where
    V2: "py_sum (map (\<lambda>t. dict_lookup (solved_y_tija solved) (t, k, j, a)) profiles) = Some V2"
    and d2: "dot row2 z = V1 - V2" by (auto simp: d1)
  have sat: "rows_satisfied s' z \<longleftrightarrow> rows_satisfied s z \<and> V1 \<le> V2"
    and inv': "csr_ok s' \<and> catalog_of s' = catalog_of m"
    using add_row_step [OF inv, of row2 NInf "Num 0" z]
    by (auto simp: s' within_bounds_def d2)
  have aud: "do {
         lhs \<leftarrow> py_sum [dict_lookup (solved_x_aijk solved) (a, i, j, k). i \<leftarrow> [1 .. k]];
         profiles \<leftarrow> inst_Ta inst a;
         rhs \<leftarrow> py_sum [dict_lookup (solved_y_tija solved) (t, k, j, a). t \<leftarrow> profiles];
         Some (check_le tol ''Eq(6)'' lhs rhs
                 (''k='' @ str_int k @ '', j='' @ str_int j @ '', a='' @ str_int a) t)
       } = Some t" if "V1 \<le> V2" for t
    using that tol by (simp add: V1 V2 profiles check_le_pass)
  show "(csr_ok s' \<and> catalog_of s' = catalog_of m) \<and>
        (rows_satisfied s' z \<longrightarrow> rows_satisfied s z \<and>
          (\<forall>t. do {
         lhs \<leftarrow> py_sum [dict_lookup (solved_x_aijk solved) (a, i, j, k). i \<leftarrow> [1 .. k]];
         profiles \<leftarrow> inst_Ta inst a;
         rhs \<leftarrow> py_sum [dict_lookup (solved_y_tija solved) (t, k, j, a). t \<leftarrow> profiles];
         Some (check_le tol ''Eq(6)'' lhs rhs
                 (''k='' @ str_int k @ '', j='' @ str_int j @ '', a='' @ str_int a) t)
       } = Some t))"
    using inv' sat aud by blast
qed

lemma shift_entry:
  assumes "unpack_values d z = Some sd" and "dict_lookup d key = Some idx"
  shows "dict_lookup sd key = Some (z ! idx)"
  using unpack_lookup [OF assms(1), of key] assms(2) by simp

lemma eq7_lockstep:
  assumes run: "eq7_rows 0 inst m = Some m'" and ok: "csr_ok m"
    and link: "linked m solved z" and tol: "0 \<le> tol"
  shows "(csr_ok m' \<and> catalog_of m' = catalog_of m) \<and>
         (rows_satisfied m' z \<longrightarrow> rows_satisfied m z \<and> (\<forall>t. audit_eq7 inst solved tol t = Some t))"
  unfolding audit_eq7_def
proof (rule lockstep3 [where I = "\<lambda>s. csr_ok s \<and> catalog_of s = catalog_of m"
      and Sat = "\<lambda>s. rows_satisfied s z", OF run [unfolded eq7_rows_def]])
  show "csr_ok m \<and> catalog_of m = catalog_of m" using ok by simp
next
  fix i j t and s s' :: WAESModel
  assume inv: "csr_ok s \<and> catalog_of s = catalog_of m"
    and step: "do {
         acts \<leftarrow> inst_Ht inst t;
         row \<leftarrow> for_loop (\<lambda>a row. do {
                   idx \<leftarrow> dict_lookup (y_tija s) (t, i, j, a);
                   Some (dict_set row idx (dict_get row idx 0 + 1))
                 }) acts [];
         idx_shift \<leftarrow> dict_lookup (y_tj s) (t, j);
         let row = dict_set row idx_shift (dict_get row idx_shift 0 - 1);
         Some (add_row 0 row NInf (Num 0) s)
       } = Some s'"
  from step obtain acts row1 idx_shift where acts: "inst_Ht inst t = Some acts"
    and row1: "for_loop (\<lambda>a row. do {
                   idx \<leftarrow> dict_lookup (y_tija s) (t, i, j, a);
                   Some (dict_set row idx (dict_get row idx 0 + 1))
                 }) acts ([] :: row) = Some row1"
    and idx: "dict_lookup (y_tj s) (t, j) = Some idx_shift"
    and s': "s' = add_row 0 (dict_set row1 idx_shift (dict_get row1 idx_shift 0 - 1)) NInf (Num 0) s"
    by (auto simp: bind_eq_Some_conv Let_def)
  note ly = linked_step(2) [OF inv link] and ls = linked_step(3) [OF inv link]
  have "\<exists>V. py_sum (map (\<lambda>a. dict_lookup (solved_y_tija solved) (t, i, j, a)) acts) = Some V \<and>
            dot row1 z = dot [] z + 1 * V"
    using row1 by (rule row_loop_sum) (rule entry_bump [OF ly])
  then obtain V1 where
    V1: "py_sum (map (\<lambda>a. dict_lookup (solved_y_tija solved) (t, i, j, a)) acts) = Some V1"
    and d1: "dot row1 z = V1" by auto
  note y = shift_entry [OF ls idx]
  have d2: "dot (dict_set row1 idx_shift (dict_get row1 idx_shift 0 - 1)) z = V1 - z ! idx_shift"
    by (simp add: dot_drop d1)
  have sat: "rows_satisfied s' z \<longleftrightarrow> rows_satisfied s z \<and> V1 \<le> z ! idx_shift"
    and inv': "csr_ok s' \<and> catalog_of s' = catalog_of m"
    using add_row_step [OF inv, of "dict_set row1 idx_shift (dict_get row1 idx_shift 0 - 1)" NInf "Num 0" z]
    by (auto simp: s' within_bounds_def d2)
  have aud: "do {
         acts \<leftarrow> inst_Ht inst t;
         lhs \<leftarrow> py_sum [dict_lookup (solved_y_tija solved) (t, i, j, a). a \<leftarrow> acts];
         rhs \<leftarrow> dict_lookup (solved_y_tj solved) (t, j);
         Some (check_le tol ''Eq(7)'' lhs rhs
                 (''i='' @ str_int i @ '', j='' @ str_int j @ '', t='' @ str_int t) u)
       } = Some u" if "V1 \<le> z ! idx_shift" for u
    using that tol by (simp add: V1 acts y check_le_pass)
  show "(csr_ok s' \<and> catalog_of s' = catalog_of m) \<and>
        (rows_satisfied s' z \<longrightarrow> rows_satisfied s z \<and>
          (\<forall>u. do {
         acts \<leftarrow> inst_Ht inst t;
         lhs \<leftarrow> py_sum [dict_lookup (solved_y_tija solved) (t, i, j, a). a \<leftarrow> acts];
         rhs \<leftarrow> dict_lookup (solved_y_tj solved) (t, j);
         Some (check_le tol ''Eq(7)'' lhs rhs
                 (''i='' @ str_int i @ '', j='' @ str_int j @ '', t='' @ str_int t) u)
       } = Some u))"
    using inv' sat aud by blast
qed

lemma eq8_lockstep:
  assumes run: "eq8_rows 0 inst m = Some m'" and ok: "csr_ok m"
    and link: "linked m solved z" and tol: "0 \<le> tol"
  shows "(csr_ok m' \<and> catalog_of m' = catalog_of m) \<and>
         (rows_satisfied m' z \<longrightarrow> rows_satisfied m z \<and> (\<forall>t. audit_eq8 inst solved tol t = Some t))"
  unfolding audit_eq8_def
proof (rule lockstep [where I = "\<lambda>s. csr_ok s \<and> catalog_of s = catalog_of m"
      and Sat = "\<lambda>s. rows_satisfied s z", OF run [unfolded eq8_rows_def]])
  show "csr_ok m \<and> catalog_of m = catalog_of m" using ok by simp
next
  fix i and s s' :: WAESModel
  assume inv: "csr_ok s \<and> catalog_of s = catalog_of m"
    and step: "do {
         row \<leftarrow> for_loop (\<lambda>t. for_loop (\<lambda>j. for_loop (\<lambda>a row. do {
                   idx \<leftarrow> dict_lookup (y_tija s) (t, i, j, a);
                   Some (dict_set row idx (dict_get row idx 0 + 1))
                 }) (inst_A inst)) (inst_M inst)) (inst_T inst) [];
         Some (add_row 0 row NInf (Num (of_int (inst_q inst))) s)
       } = Some s'"
  from step obtain row1 where
    row1: "for_loop (\<lambda>t. for_loop (\<lambda>j. for_loop (\<lambda>a row. do {
                   idx \<leftarrow> dict_lookup (y_tija s) (t, i, j, a);
                   Some (dict_set row idx (dict_get row idx 0 + 1))
                 }) (inst_A inst)) (inst_M inst)) (inst_T inst) ([] :: row) = Some row1"
    and s': "s' = add_row 0 row1 NInf (Num (of_int (inst_q inst))) s"
    by (auto simp: bind_eq_Some_conv)
  note ly = linked_step(2) [OF inv link]
  have "\<exists>V. py_sum (concat (map (\<lambda>t. concat (map (\<lambda>j. map (\<lambda>a.
                 dict_lookup (solved_y_tija solved) (t, i, j, a)) (inst_A inst)) (inst_M inst)))
               (inst_T inst))) = Some V \<and>
            dot row1 z = dot [] z + 1 * V"
    using row1 by (rule row_loop3_sum) (rule entry_bump [OF ly])
  then obtain V1 where
    V1: "py_sum (concat (map (\<lambda>t. concat (map (\<lambda>j. map (\<lambda>a.
                 dict_lookup (solved_y_tija solved) (t, i, j, a)) (inst_A inst)) (inst_M inst)))
               (inst_T inst))) = Some V1"
    and d1: "dot row1 z = V1" by auto
  have sat: "rows_satisfied s' z \<longleftrightarrow> rows_satisfied s z \<and> V1 \<le> of_int (inst_q inst)"
    and inv': "csr_ok s' \<and> catalog_of s' = catalog_of m"
    using add_row_step [OF inv, of row1 NInf "Num (of_int (inst_q inst))" z]
    by (auto simp: s' within_bounds_def d1)
  have aud: "do {
         lhs \<leftarrow> py_sum [dict_lookup (solved_y_tija solved) (t, i, j, a).
                         t \<leftarrow> inst_T inst, j \<leftarrow> inst_M inst, a \<leftarrow> inst_A inst];
         Some (check_le tol ''Eq(8)'' lhs (of_int (inst_q inst)) (''i='' @ str_int i) u)
       } = Some u" if "V1 \<le> of_int (inst_q inst)" for u
    using that tol by (simp add: V1 check_le_pass)
  show "(csr_ok s' \<and> catalog_of s' = catalog_of m) \<and>
        (rows_satisfied s' z \<longrightarrow> rows_satisfied s z \<and>
          (\<forall>u. do {
         lhs \<leftarrow> py_sum [dict_lookup (solved_y_tija solved) (t, i, j, a).
                         t \<leftarrow> inst_T inst, j \<leftarrow> inst_M inst, a \<leftarrow> inst_A inst];
         Some (check_le tol ''Eq(8)'' lhs (of_int (inst_q inst)) (''i='' @ str_int i) u)
       } = Some u))"
    using inv' sat aud by blast
qed

lemma eq9_lockstep:
  assumes run: "eq9_rows 0 inst m = Some m'" and ok: "csr_ok m"
    and link: "linked m solved z" and tol: "0 \<le> tol"
  shows "(csr_ok m' \<and> catalog_of m' = catalog_of m) \<and>
         (rows_satisfied m' z \<longrightarrow> rows_satisfied m z \<and> (\<forall>t. audit_eq9 inst solved tol t = Some t))"
  unfolding audit_eq9_def
proof (rule lockstep2 [where I = "\<lambda>s. csr_ok s \<and> catalog_of s = catalog_of m"
      and Sat = "\<lambda>s. rows_satisfied s z", OF run [unfolded eq9_rows_def]])
  show "csr_ok m \<and> catalog_of m = catalog_of m" using ok by simp
next
  fix t j and s s' :: WAESModel
  assume inv: "csr_ok s \<and> catalog_of s = catalog_of m"
    and step: "do {
         window \<leftarrow> inst_Oj inst j;
         row \<leftarrow> for_loop (\<lambda>i row. do {
                   acts \<leftarrow> inst_Ht inst t;
                   for_loop (\<lambda>a row. do {
                       idx \<leftarrow> dict_lookup (y_tija s) (t, i, j, a);
                       Some (dict_set row idx (dict_get row idx 0 + 1))
                     }) acts row
                 }) window [];
         idx_shift \<leftarrow> dict_lookup (y_tj s) (t, j);
         let row = dict_set row idx_shift
                     (dict_get row idx_shift 0 - of_int (inst_f inst - inst_p inst));
         Some (add_row 0 row NInf (Num 0) s)
       } = Some s'"
  from step obtain window row1 idx_shift where window: "inst_Oj inst j = Some window"
    and row1: "for_loop (\<lambda>i row. do {
                   acts \<leftarrow> inst_Ht inst t;
                   for_loop (\<lambda>a row. do {
                       idx \<leftarrow> dict_lookup (y_tija s) (t, i, j, a);
                       Some (dict_set row idx (dict_get row idx 0 + 1))
                     }) acts row
                 }) window ([] :: row) = Some row1"
    and idx: "dict_lookup (y_tj s) (t, j) = Some idx_shift"
    and s': "s' = add_row 0 (dict_set row1 idx_shift
                     (dict_get row1 idx_shift 0 - of_int (inst_f inst - inst_p inst))) NInf (Num 0) s"
    by (auto simp: bind_eq_Some_conv Let_def)
  note ly = linked_step(2) [OF inv link] and ls = linked_step(3) [OF inv link]
  have "\<exists>V. py_sum (map (\<lambda>i. py_sum (case inst_Ht inst t of None \<Rightarrow> [None]
                   | Some acts \<Rightarrow> map (\<lambda>a. dict_lookup (solved_y_tija solved) (t, i, j, a)) acts))
                 window) = Some V \<and>
            dot row1 z = dot [] z + 1 * V"
    using row1
  proof (rule row_loop_sum)
    fix i and r r' :: row
    assume "do {
                   acts \<leftarrow> inst_Ht inst t;
                   for_loop (\<lambda>a row. do {
                       idx \<leftarrow> dict_lookup (y_tija s) (t, i, j, a);
                       Some (dict_set row idx (dict_get row idx 0 + 1))
                     }) acts r
                 } = Some r'"
    then obtain acts where acts: "inst_Ht inst t = Some acts"
      and inner: "for_loop (\<lambda>a row. do {
                       idx \<leftarrow> dict_lookup (y_tija s) (t, i, j, a);
                       Some (dict_set row idx (dict_get row idx 0 + 1))
                     }) acts r = Some r'"
      by (auto simp: bind_eq_Some_conv)
    have "\<exists>v. py_sum (map (\<lambda>a. dict_lookup (solved_y_tija solved) (t, i, j, a)) acts) = Some v \<and>
              dot r' z = dot r z + 1 * v"
      using inner by (rule row_loop_sum) (rule entry_bump [OF ly])
    then show "\<exists>v. py_sum (case inst_Ht inst t of None \<Rightarrow> [None]
                   | Some acts \<Rightarrow> map (\<lambda>a. dict_lookup (solved_y_tija solved) (t, i, j, a)) acts) = Some v \<and>
              dot r' z = dot r z + 1 * v"
      by (simp add: acts)
  qed
  then obtain V1 where
    V1: "py_sum (concat (map (\<lambda>i.
                   case inst_Ht inst t of None \<Rightarrow> [None]
                   | Some acts \<Rightarrow> map (\<lambda>a. dict_lookup (solved_y_tija solved) (t, i, j, a)) acts)
                 window)) = Some V1"
    and d1: "dot row1 z = V1" by (auto simp: py_sum_concat comp_def)
  note y = shift_entry [OF ls idx]
  have d2: "dot (dict_set row1 idx_shift
                     (dict_get row1 idx_shift 0 - of_int (inst_f inst - inst_p inst))) z =
            V1 - of_int (inst_f inst - inst_p inst) * z ! idx_shift"
    unfolding dot_drop d1 ..
  have sat: "rows_satisfied s' z \<longleftrightarrow>
               rows_satisfied s z \<and> V1 \<le> of_int (inst_f inst - inst_p inst) * z ! idx_shift"
    and inv': "csr_ok s' \<and> catalog_of s' = catalog_of m"
    using add_row_step [OF inv, of "dict_set row1 idx_shift
                     (dict_get row1 idx_shift 0 - of_int (inst_f inst - inst_p inst))" NInf "Num 0" z]
    unfolding s' d2 by (auto simp: within_bounds_def)
  have aud: "do {
         window \<leftarrow> inst_Oj inst j;
         lhs \<leftarrow> py_sum (concat (map (\<lambda>i.
                   case inst_Ht inst t of None \<Rightarrow> [None]
                   | Some acts \<Rightarrow> map (\<lambda>a. dict_lookup (solved_y_tija solved) (t, i, j, a)) acts)
                 window));
         y \<leftarrow> dict_lookup (solved_y_tj solved) (t, j);
         Some (check_le tol ''Eq(9)'' lhs (of_int (inst_f inst - inst_p inst) * y)
                 (''t='' @ str_int t @ '', j='' @ str_int j) u)
       } = Some u" if "V1 \<le> of_int (inst_f inst - inst_p inst) * z ! idx_shift" for u
    using that tol unfolding window y by (simp add: V1 check_le_pass)
  show "(csr_ok s' \<and> catalog_of s' = catalog_of m) \<and>
        (rows_satisfied s' z \<longrightarrow> rows_satisfied s z \<and>
          (\<forall>u. do {
         window \<leftarrow> inst_Oj inst j;
         lhs \<leftarrow> py_sum (concat (map (\<lambda>i.
                   case inst_Ht inst t of None \<Rightarrow> [None]
                   | Some acts \<Rightarrow> map (\<lambda>a. dict_lookup (solved_y_tija solved) (t, i, j, a)) acts)
                 window));
         y \<leftarrow> dict_lookup (solved_y_tj solved) (t, j);
         Some (check_le tol ''Eq(9)'' lhs (of_int (inst_f inst - inst_p inst) * y)
                 (''t='' @ str_int t @ '', j='' @ str_int j) u)
       } = Some u))"
    using inv' sat aud by blast
qed

lemma eq10_lockstep:
  assumes run: "eq10_row 0 inst m = Some m'" and ok: "csr_ok m"
    and link: "linked m solved z" and tol: "0 \<le> tol"
  shows "(csr_ok m' \<and> catalog_of m' = catalog_of m) \<and>
         (rows_satisfied m' z \<longrightarrow> rows_satisfied m z \<and> (\<forall>t. audit_eq10 inst solved tol t = Some t))"
proof -
  have inv: "csr_ok m \<and> catalog_of m = catalog_of m" using ok by simp
  from run obtain row1 row2 where
    row1: "for_loop (\<lambda>j. for_loop (\<lambda>t row. do {
                 idx \<leftarrow> dict_lookup (y_tj m) (t, j);
                 Some (dict_set row idx (dict_get row idx 0 + 1))
               }) (inst_T inst)) (inst_M2 inst) ([] :: row) = Some row1"
    and row2: "for_loop (\<lambda>j. for_loop (\<lambda>t row. do {
                 idx \<leftarrow> dict_lookup (y_tj m) (t, j);
                 Some (dict_set row idx (dict_get row idx 0 - inst_w inst))
               }) (inst_T inst)) (inst_M inst) row1 = Some row2"
    and m': "m' = add_row 0 row2 NInf (Num 0) m"
    by (auto simp: eq10_row_def bind_eq_Some_conv)
  note ls = linked_step(3) [OF inv link]
  have "\<exists>V. py_sum (concat (map (\<lambda>j. map (\<lambda>t. dict_lookup (solved_y_tj solved) (t, j))
                 (inst_T inst)) (inst_M2 inst))) = Some V \<and>
            dot row1 z = dot [] z + 1 * V"
    using row1 by (rule row_loop2_sum) (rule entry_bump [OF ls])
  then obtain V1 where
    V1: "py_sum (concat (map (\<lambda>j. map (\<lambda>t. dict_lookup (solved_y_tj solved) (t, j))
                 (inst_T inst)) (inst_M2 inst))) = Some V1"
    and d1: "dot row1 z = V1" by auto
  have "\<exists>V. py_sum (concat (map (\<lambda>j. map (\<lambda>t. dict_lookup (solved_y_tj solved) (t, j))
                 (inst_T inst)) (inst_M inst))) = Some V \<and>
            dot row2 z = dot row1 z + (- inst_w inst) * V"
    using row2 by (rule row_loop2_sum) (rule entry_drop [OF ls])
  then obtain V2 where
    V2: "py_sum (concat (map (\<lambda>j. map (\<lambda>t. dict_lookup (solved_y_tj solved) (t, j))
                 (inst_T inst)) (inst_M inst))) = Some V2"
    and d2: "dot row2 z = V1 - inst_w inst * V2" by (auto simp: d1)
  have sat: "rows_satisfied m' z \<longleftrightarrow> rows_satisfied m z \<and> V1 \<le> inst_w inst * V2"
    and inv': "csr_ok m' \<and> catalog_of m' = catalog_of m"
    using add_row_step [OF inv, of row2 NInf "Num 0" z]
    unfolding m' d2 by (auto simp: within_bounds_def)
  have aud: "audit_eq10 inst solved tol u = Some u" if "V1 \<le> inst_w inst * V2" for u
    using that tol by (simp add: audit_eq10_def V1 V2 check_le_pass)
  show ?thesis using inv' sat aud by blast
qed

lemma py_round_integer:
  assumes "of_int \<lfloor>v\<rfloor> = v"
  shows "of_int (py_round v) = v"
proof -
  define n where "n = \<lfloor>v\<rfloor>"
  from assms [symmetric] have v: "v = of_int n" unfolding n_def .
  show ?thesis unfolding v by (simp add: py_round_def Let_def)
qed

lemma fold_check_integer:
  assumes "list_all (\<lambda>(key, val). of_int \<lfloor>val\<rfloor> = val) d" and "0 \<le> tol"
  shows "fold (\<lambda>(key, val) t. check_eq tol tag val (of_int (py_round val)) (name key) t) d t = t"
  using assms(1)
proof (induction d)
  case Nil
  show ?case by simp
next
  case (Cons p d)
  obtain key val where p: "p = (key, val)" by (cases p)
  from Cons.prems have v: "of_int \<lfloor>val\<rfloor> = val"
    and rest: "list_all (\<lambda>(key, val). of_int \<lfloor>val\<rfloor> = val) d"
    by (simp_all add: p)
  have "check_eq tol tag val (of_int (py_round val)) (name key) t = t"
    using assms(2) by (simp add: check_eq_pass py_round_integer [OF v])
  then show ?case by (simp add: p Cons.IH [OF rest])
qed

lemma audit_eq11_integer:
  assumes "integer_valued solved" and "0 \<le> tol"
  shows "audit_eq11 solved tol t = t"
  using assms
  by (simp add: audit_eq11_def integer_valued_def Let_def fold_check_integer)

lemma csr_ok_create_variables:
  assumes "create_variables inst ws = Some m"
  shows "csr_ok m"
  using create_variables_facts(6) [OF assms]
  by (simp add: csr_of_def csr_ok_def row_count_def)

lemma exact_rows_audit:
  assumes exact: "build_waes_model_thr 0 inst ws = Some m"
    and link: "linked m solved z" and sat: "rows_satisfied m z"
    and ints: "integer_valued solved" and tol: "0 \<le> tol"
  shows "run_audits inst solved ws tol = Some \<lparr>passed = True, tolerance = tol, issues = []\<rparr>"
proof -
  from exact obtain m0 m2 m3 m4 m5 m6 m7 m8 m9 where
    c0: "create_variables inst ws = Some m0" and r2: "eq2_rows 0 inst ws m0 = Some m2"
    and r3: "eq3_rows 0 inst ws m2 = Some m3" and r4: "eq4_rows 0 inst ws m3 = Some m4"
    and r5: "eq5_rows 0 inst ws m4 = Some m5" and r6: "eq6_rows 0 inst m5 = Some m6"
    and r7: "eq7_rows 0 inst m6 = Some m7" and r8: "eq8_rows 0 inst m7 = Some m8"
    and r9: "eq9_rows 0 inst m8 = Some m9" and r10: "eq10_row 0 inst m9 = Some m"
    unfolding build_waes_model_thr_def by (auto simp: bind_eq_Some_conv)
  from build_catalog [OF exact] c0 have cat: "catalog_of m = catalog_of m0" by simp
  from link have l0: "linked m0 solved z" unfolding linked_catalog [OF cat] .
  note ok0 = csr_ok_create_variables [OF c0]
  note s2 = eq2_lockstep [OF r2 ok0 l0 tol]
  from s2 have ok2: "csr_ok m2" and c2: "catalog_of m2 = catalog_of m0" by simp_all
  from l0 have l2: "linked m2 solved z" unfolding linked_catalog [OF c2] .
  note s3 = eq3_lockstep [OF r3 ok2 l2 tol]
  from s3 have ok3: "csr_ok m3" and c3: "catalog_of m3 = catalog_of m2" by simp_all
  from l2 have l3: "linked m3 solved z" unfolding linked_catalog [OF c3] .
  note s4 = eq4_lockstep [OF r4 ok3 l3 tol]
  from s4 have ok4: "csr_ok m4" and c4: "catalog_of m4 = catalog_of m3" by simp_all
  from l3 have l4: "linked m4 solved z" unfolding linked_catalog [OF c4] .
  note s5 = eq5_lockstep [OF r5 ok4 l4 tol]
  from s5 have ok5: "csr_ok m5" and c5: "catalog_of m5 = catalog_of m4" by simp_all
  from l4 have l5: "linked m5 solved z" unfolding linked_catalog [OF c5] .
  note s6 = eq6_lockstep [OF r6 ok5 l5 tol]
  from s6 have ok6: "csr_ok m6" and c6: "catalog_of m6 = catalog_of m5" by simp_all
  from l5 have l6: "linked m6 solved z" unfolding linked_catalog [OF c6] .
  note s7 = eq7_lockstep [OF r7 ok6 l6 tol]
  from s7 have ok7: "csr_ok m7" and c7: "catalog_of m7 = catalog_of m6" by simp_all
  from l6 have l7: "linked m7 solved z" unfolding linked_catalog [OF c7] .
  note s8 = eq8_lockstep [OF r8 ok7 l7 tol]
  from s8 have ok8: "csr_ok m8" and c8: "catalog_of m8 = catalog_of m7" by simp_all
  from l7 have l8: "linked m8 solved z" unfolding linked_catalog [OF c8] .
  note s9 = eq9_lockstep [OF r9 ok8 l8 tol]
  from s9 have ok9: "csr_ok m9" and c9: "catalog_of m9 = catalog_of m8" by simp_all
  from l8 have l9: "linked m9 solved z" unfolding linked_catalog [OF c9] .
  note s10 = eq10_lockstep [OF r10 ok9 l9 tol]
  from s10 sat have sat9: "rows_satisfied m9 z"
    and a10: "\<And>t. audit_eq10 inst solved tol t = Some t" by simp_all
  from s9 sat9 have sat8: "rows_satisfied m8 z"
    and a9: "\<And>t. audit_eq9 inst solved tol t = Some t" by simp_all
  from s8 sat8 have sat7: "rows_satisfied m7 z"
    and a8: "\<And>t. audit_eq8 inst solved tol t = Some t" by simp_all
  from s7 sat7 have sat6: "rows_satisfied m6 z"
    and a7: "\<And>t. audit_eq7 inst solved tol t = Some t" by simp_all
  from s6 sat6 have sat5: "rows_satisfied m5 z"
    and a6: "\<And>t. audit_eq6 inst solved tol t = Some t" by simp_all
  from s5 sat5 have sat4: "rows_satisfied m4 z"
    and a5: "\<And>t. audit_eq5 inst solved ws tol t = Some t" by simp_all
  from s4 sat4 have sat3: "rows_satisfied m3 z"
    and a4: "\<And>t. audit_eq4 inst solved ws tol t = Some t" by simp_all
  from s3 sat3 have sat2: "rows_satisfied m2 z"
    and a3: "\<And>t. audit_eq3 inst solved ws tol t = Some t" by simp_all
  from s2 sat2 have a2: "\<And>t. audit_eq2 inst solved ws tol t = Some t" by simp_all
  show ?thesis
    by (simp add: run_audits_def a2 a3 a4 a5 a6 a7 a8 a9 a10 audit_eq11_integer [OF ints tol])
qed

section \<open>Windowing claims\<close>

text \<open>
  C3. The windowing helpers of the encoder module and those of the audit module are
  extensionally equal: for every instance, index, activity and mode, the encoder's
  \<open>until_a1\<close> returns (or raises) what the audit's \<open>audit_until_a1\<close> does, and likewise for
  \<open>until_a2\<close> and \<open>audit_until_a2\<close>.
\<close>

theorem windowing_lock_step:
  "until_a1 inst i_or_k a ws = audit_until_a1 inst i_or_k a ws \<and>
   until_a2 inst i_or_k a ws = audit_until_a2 inst i_or_k a ws"
  by (simp add: until_a1_def audit_until_a1_def until_a2_def audit_until_a2_def)

text \<open>
  C4, as stated, fails: the claim promises \<open>deadline_end \<ge> i\<close> for every interval and every
  deadline offset, but the offset is an unconstrained integer. On the validated instance
  \<open>toy_negative_offset\<close> (\<open>n = 2\<close>, \<open>v[1] = -1\<close>) the interval \<open>i = 2\<close> has
  \<open>deadline_end = min (2 - 1) 2 = 1 < 2\<close>.
\<close>

theorem deadline_end_before_origin:
  "validate_instance toy_negative_offset \<and>
   2 \<in> set (inst_N toy_negative_offset) \<and>
   inst_v toy_negative_offset 1 = Some (- 1) \<and>
   until_a1 toy_negative_offset 2 1 False = Some 1 \<and>
   audit_until_a1 toy_negative_offset 2 1 False = Some 1 \<and>
   (1 :: int) < 2"
  using toy_negative_offset_valid
  by (simp add: until_a1_def audit_until_a1_def toy_negative_offset_def toy_def)

text \<open>
  C4, amended. For every interval \<open>i\<close> of the horizon (\<open>i \<le> n\<close>) and every activity \<open>a\<close>
  with a deadline offset \<open>v[a]\<close>: with \<open>ws = false\<close>,
  \<open>deadline_end = min (i + v[a]) n\<close>, and \<open>deadline_end \<ge> i\<close> provided \<open>v[a] \<ge> 0\<close>;
  with \<open>ws = true\<close>, \<open>deadline_end = i\<close>. Both copies of the helper agree.
\<close>

theorem deadline_end_correct:
  assumes "inst_v inst a = Some v_a" and "i \<le> inst_n inst"
  shows "until_a1 inst i a False = Some (min (i + v_a) (inst_n inst)) \<and>
         audit_until_a1 inst i a False = Some (min (i + v_a) (inst_n inst)) \<and>
         (0 \<le> v_a \<longrightarrow> i \<le> min (i + v_a) (inst_n inst)) \<and>
         until_a1 inst i a True = Some i \<and>
         audit_until_a1 inst i a True = Some i"
  using assms by (simp add: until_a1_def audit_until_a1_def)

theorem deadline_end_correct_witness:
  "inst_v toy 1 = Some 0 \<and> (1 :: int) \<le> inst_n toy \<and>
   until_a1 toy 1 1 False = Some 1 \<and> audit_until_a1 toy 1 1 False = Some 1 \<and>
   until_a1 toy 1 1 True = Some 1 \<and> audit_until_a1 toy 1 1 True = Some 1"
proof -
  have v: "inst_v toy 1 = Some 0" and n: "(1 :: int) \<le> inst_n toy"
    by (simp_all add: toy_def)
  from deadline_end_correct [OF v n] v n show ?thesis
    by (simp add: toy_def)
qed

text \<open>
  C5. For every interval \<open>k\<close>, activity \<open>a\<close> with a release bound \<open>r[a]\<close>, instance and
  mode, \<open>release_end\<close> returns a value that is at least \<open>k\<close>, and the value is \<open>k\<close> itself
  whenever \<open>r[a] \<le> 0\<close> or \<open>ws = true\<close>. Both copies of the helper agree.
\<close>

theorem release_end_correct:
  assumes "inst_r inst a = Some r_a"
  shows "\<exists>u. until_a2 inst k a ws = Some u \<and> audit_until_a2 inst k a ws = Some u \<and>
             k \<le> u \<and> ((r_a \<le> 0 \<or> ws) \<longrightarrow> u = k)"
  using assms by (auto simp: until_a2_def audit_until_a2_def)

theorem release_end_correct_witness:
  "inst_r toy_release 1 = Some 1 \<and>
   (\<exists>u. until_a2 toy_release 1 1 False = Some u \<and> audit_until_a2 toy_release 1 1 False = Some u \<and>
        (1 :: int) \<le> u)"
proof -
  have r: "inst_r toy_release 1 = Some 1"
    by (simp add: toy_release_def toy_def)
  from release_end_correct [OF r, of 1 False] r show ?thesis
    by auto
qed

section \<open>The integrality check\<close>

lemma check_eq_other: "eq \<noteq> ''Eq(11)'' \<Longrightarrow> filter is_eq11 (check_eq tol eq l r d iss) = filter is_eq11 iss"
  by (simp add: check_eq_def is_eq11_def Let_def)
lemma check_le_other: "eq \<noteq> ''Eq(11)'' \<Longrightarrow> filter is_eq11 (check_le tol eq l r d iss) = filter is_eq11 iss"
  by (simp add: check_le_def is_eq11_def Let_def)
lemma check_ge_other: "eq \<noteq> ''Eq(11)'' \<Longrightarrow> filter is_eq11 (check_ge tol eq l r d iss) = filter is_eq11 iss"
  by (simp add: check_ge_def is_eq11_def Let_def)

lemmas check_other = check_eq_other check_le_other check_ge_other

lemma audit_eq2_tag:
  assumes "audit_eq2 inst solved ws tol iss = Some iss'"
  shows "filter is_eq11 iss' = filter is_eq11 iss"
  using assms unfolding audit_eq2_def
  by (elim for_loop_preserves) (auto simp: check_other bind_eq_Some_conv)

lemma audit_eq6_tag:
  assumes "audit_eq6 inst solved tol iss = Some iss'"
  shows "filter is_eq11 iss' = filter is_eq11 iss"
  using assms unfolding audit_eq6_def
  by (elim for_loop_preserves) (auto simp: check_other bind_eq_Some_conv)

lemma audit_eq10_tag:
  assumes "audit_eq10 inst solved tol iss = Some iss'"
  shows "filter is_eq11 iss' = filter is_eq11 iss"
  using assms unfolding audit_eq10_def
  by (auto simp: check_other bind_eq_Some_conv)

lemma audit_eq3_tag:
  assumes "audit_eq3 inst solved ws tol iss = Some iss'"
  shows "filter is_eq11 iss' = filter is_eq11 iss"
  using assms unfolding audit_eq3_def
  by (elim for_loop_preserves) (auto simp: check_other bind_eq_Some_conv)

lemma audit_eq4_tag:
  assumes "audit_eq4 inst solved ws tol iss = Some iss'"
  shows "filter is_eq11 iss' = filter is_eq11 iss"
  using assms unfolding audit_eq4_def
  by (elim for_loop_preserves) (auto simp: check_other bind_eq_Some_conv)

lemma audit_eq5_tag:
  assumes "audit_eq5 inst solved ws tol iss = Some iss'"
  shows "filter is_eq11 iss' = filter is_eq11 iss"
  using assms unfolding audit_eq5_def
  by (elim for_loop_preserves) (auto simp: check_other bind_eq_Some_conv)

lemma audit_eq7_tag:
  assumes "audit_eq7 inst solved tol iss = Some iss'"
  shows "filter is_eq11 iss' = filter is_eq11 iss"
  using assms unfolding audit_eq7_def
  by (elim for_loop_preserves) (auto simp: check_other bind_eq_Some_conv)

lemma audit_eq8_tag:
  assumes "audit_eq8 inst solved tol iss = Some iss'"
  shows "filter is_eq11 iss' = filter is_eq11 iss"
  using assms unfolding audit_eq8_def
  by (elim for_loop_preserves) (auto simp: check_other bind_eq_Some_conv)

lemma audit_eq9_tag:
  assumes "audit_eq9 inst solved tol iss = Some iss'"
  shows "filter is_eq11 iss' = filter is_eq11 iss"
  using assms unfolding audit_eq9_def
  by (elim for_loop_preserves) (auto simp: check_other bind_eq_Some_conv)

lemma check_eq_append: "check_eq tol eq l r d iss = iss @ check_eq tol eq l r d []"
  by (simp add: check_eq_def Let_def)

lemma integrality_fold:
  "fold (\<lambda>(key, val) iss. check_eq tol eq val (g val) (h key) iss) items iss =
   iss @ concat (map (\<lambda>(key, val). check_eq tol eq val (g val) (h key) []) items)"
proof (induction items arbitrary: iss)
  case Nil
  then show ?case by simp
next
  case (Cons item items)
  obtain key val where item: "item = (key, val)" by (cases item)
  show ?case
    by (simp add: item Cons.IH check_eq_append [of tol eq val "g val" "h key" iss])
qed

lemma check_eq_eq11: "filter is_eq11 (check_eq tol ''Eq(11)'' l r d []) = check_eq tol ''Eq(11)'' l r d []"
  by (simp add: check_eq_def is_eq11_def Let_def)

lemma filter_integrality:
  "filter is_eq11 (concat (map (\<lambda>(key, val). check_eq tol ''Eq(11)'' val (g val) (h key) []) items)) =
   concat (map (\<lambda>(key, val). check_eq tol ''Eq(11)'' val (g val) (h key) []) items)"
  by (induction items) (auto simp: check_eq_eq11)

lemma audit_eq11_issues:
  "audit_eq11 solved tol iss =
     iss @ concat (map (\<lambda>(key, val). check_eq tol ''Eq(11)'' val (of_int (py_round val)) (''x'' @ str_key4 key) [])
                   (solved_x_aijk solved))
         @ concat (map (\<lambda>(key, val). check_eq tol ''Eq(11)'' val (of_int (py_round val)) (''y_tija'' @ str_key4 key) [])
                   (solved_y_tija solved))
         @ concat (map (\<lambda>(key, val). check_eq tol ''Eq(11)'' val (of_int (py_round val)) (''y_tj'' @ str_key2 key) [])
                   (solved_y_tj solved))"
  unfolding audit_eq11_def Let_def
  by (simp add: integrality_fold [where g = "\<lambda>val. of_int (py_round val)"])

lemma gap_below: "\<bar>200004 / 100000 - of_int (py_round (200004 / 100000))\<bar> = (4 / 100000 :: rat)"
  by code_simp

lemma gap_above: "\<bar>20002 / 10000 - of_int (py_round (20002 / 10000))\<bar> = (2 / 10000 :: rat)"
  by code_simp

lemma check_eq_below:
  "check_eq default_tol ''Eq(11)'' (200004 / 100000) (of_int (py_round (200004 / 100000))) det [] = []"
  unfolding check_eq_def Let_def gap_below default_tol_def by simp

lemma check_eq_above:
  "check_eq default_tol ''Eq(11)'' (20002 / 10000) (of_int (py_round (20002 / 10000))) det [] =
     [\<lparr>equation = ''Eq(11)'', detail = det, violation = 2 / 10000\<rparr>]"
  unfolding check_eq_def Let_def gap_above default_tol_def by simp

text \<open>
  C9. With the tolerance \<open>1e-4\<close>, a solved value of \<open>2.00004\<close> yields no issue of the
  integrality check and a solved value of \<open>2.0002\<close> yields one: whenever \<open>run_audits\<close>
  returns a report, the issues tagged \<^verbatim>\<open>Eq(11)\<close> of the report are exactly what the call of
  \<open>check_eq\<close> on each solved value and its nearest integer appends, variable by variable
  in the order of the three dictionaries; that call appends nothing for \<open>2.00004\<close> and one
  issue, with violation \<open>0.0002\<close>, for \<open>2.0002\<close>.
\<close>

theorem integrality_threshold:
  assumes "run_audits inst solved ws default_tol = Some report"
  shows "filter is_eq11 (issues report) =
           concat (map (\<lambda>(key, val). check_eq default_tol ''Eq(11)'' val (of_int (py_round val)) (''x'' @ str_key4 key) [])
                     (solved_x_aijk solved))
           @ concat (map (\<lambda>(key, val). check_eq default_tol ''Eq(11)'' val (of_int (py_round val)) (''y_tija'' @ str_key4 key) [])
                     (solved_y_tija solved))
           @ concat (map (\<lambda>(key, val). check_eq default_tol ''Eq(11)'' val (of_int (py_round val)) (''y_tj'' @ str_key2 key) [])
                     (solved_y_tj solved)) \<and>
         check_eq default_tol ''Eq(11)'' (200004 / 100000) (of_int (py_round (200004 / 100000))) det [] = [] \<and>
         check_eq default_tol ''Eq(11)'' (20002 / 10000) (of_int (py_round (20002 / 10000))) det [] =
           [\<lparr>equation = ''Eq(11)'', detail = det, violation = 2 / 10000\<rparr>]"
proof -
  from assms obtain i10 where
    pre: "filter is_eq11 i10 = []" and rep: "report = \<lparr>passed = (audit_eq11 solved default_tol i10 = []),
      tolerance = default_tol, issues = audit_eq11 solved default_tol i10\<rparr>"
    unfolding run_audits_def Let_def
    by (auto simp: bind_eq_Some_conv dest!: audit_eq2_tag audit_eq3_tag audit_eq4_tag audit_eq5_tag
        audit_eq6_tag audit_eq7_tag audit_eq8_tag audit_eq9_tag audit_eq10_tag)
  have "filter is_eq11 (issues report) = filter is_eq11 (audit_eq11 solved default_tol i10)"
    by (simp add: rep)
  also have "\<dots> = concat (map (\<lambda>(key, val). check_eq default_tol ''Eq(11)'' val (of_int (py_round val)) (''x'' @ str_key4 key) [])
                     (solved_x_aijk solved))
           @ concat (map (\<lambda>(key, val). check_eq default_tol ''Eq(11)'' val (of_int (py_round val)) (''y_tija'' @ str_key4 key) [])
                     (solved_y_tija solved))
           @ concat (map (\<lambda>(key, val). check_eq default_tol ''Eq(11)'' val (of_int (py_round val)) (''y_tj'' @ str_key2 key) [])
                     (solved_y_tj solved))"
    by (simp add: audit_eq11_issues [of solved default_tol i10] pre
        filter_integrality [where g = "\<lambda>val. of_int (py_round val)"])
  finally show ?thesis
    using check_eq_below [of det] check_eq_above [of det] by blast
qed

lemma toy_fractional_run: "run_audits toy toy_fractional False default_tol = Some toy_fractional_report"
  by code_simp

theorem integrality_threshold_witness:
  "run_audits toy toy_fractional False default_tol = Some toy_fractional_report \<and>
   filter is_eq11 (issues toy_fractional_report) =
     [\<lparr>equation = ''Eq(11)'', detail = ''y_tj(1, 1)'', violation = 1 / 5000\<rparr>]"
proof -
  have "filter is_eq11 (issues toy_fractional_report) =
     [\<lparr>equation = ''Eq(11)'', detail = ''y_tj(1, 1)'', violation = 1 / 5000\<rparr>]"
    by (simp add: toy_fractional_report_def is_eq11_def)
  with integrality_threshold [OF toy_fractional_run, of "[]"] toy_fractional_run show ?thesis
    by blast
qed


section \<open>The objective\<close>

text \<open>
  C8. Whenever the encoder returns a model (for any instance, validated or not, and either
  mode): the payload built from the model has \<open>maximize = False\<close> and carries the model's
  objective coefficients; every key \<open>(t, j)\<close> of \<open>T \<times> M\<close> has an index in \<open>y_tj\<close>, and
  the objective coefficient at that index is \<open>c[t] * shift_cost_multiplier[j]\<close>; every key
  of \<open>A \<times> N \<times> M \<times> N\<close> has an index in \<open>x_aijk\<close> and every key of \<open>T \<times> N \<times> M \<times> A\<close> has
  an index in \<open>y_tija\<close>, and the objective coefficient at each of these indices is zero.
\<close>

theorem objective_construction:
  assumes "build_waes_model inst ws = Some m"
  shows "\<not> maximize (to_server_payload m solver_config) \<and>
         coefficients (payload_objective_data (to_server_payload m solver_config)) = objective_coeffs m \<and>
         (\<forall>t \<in> set (inst_T inst). \<forall>j \<in> set (inst_M inst).
            \<exists>idx cost mult. dict_lookup (y_tj m) (t, j) = Some idx \<and> idx < length (objective_coeffs m) \<and>
              inst_c inst t = Some cost \<and> shift_cost_multiplier inst j = Some mult \<and>
              objective_coeffs m ! idx = cost * mult) \<and>
         (\<forall>key \<in> x_keys inst.
            \<exists>idx. dict_lookup (x_aijk m) key = Some idx \<and> idx < length (objective_coeffs m) \<and>
              objective_coeffs m ! idx = 0) \<and>
         (\<forall>key \<in> y_tija_keys inst.
            \<exists>idx. dict_lookup (y_tija m) key = Some idx \<and> idx < length (objective_coeffs m) \<and>
              objective_coeffs m ! idx = 0)"
proof -
  from assms have b: "build_waes_model_thr (1 / 10 ^ 12) inst ws = Some m"
    by (simp add: build_waes_model_def)
  note f = build_facts [OF b]
  have len: "length (objective_coeffs m) = length (variable_names m)"
    and dx: "distinct (map fst (x_aijk m))" and dy: "distinct (map fst (y_tija m))"
    and dz: "distinct (map fst (y_tj m))"
    and bx: "indices_below (x_aijk m) (length (variable_names m))"
    and by': "indices_below (y_tija m) (length (variable_names m))"
    and bz: "indices_below (y_tj m) (length (variable_names m))"
    using f(1) by (simp_all add: catalog_ok_def)
  have "\<exists>idx cost mult. dict_lookup (y_tj m) (t, j) = Some idx \<and> idx < length (objective_coeffs m) \<and>
              inst_c inst t = Some cost \<and> shift_cost_multiplier inst j = Some mult \<and>
              objective_coeffs m ! idx = cost * mult"
    if "t \<in> set (inst_T inst)" and "j \<in> set (inst_M inst)" for t j
  proof -
    from that have "(t, j) \<in> fst ` set (y_tj m)" by (simp add: f(5) y_tj_keys_def)
    from dict_lookup_key [OF dz this] obtain idx where
      l: "dict_lookup (y_tj m) (t, j) = Some idx" and mem: "((t, j), idx) \<in> set (y_tj m)" by blast
    from mem bz have "idx < length (objective_coeffs m)" by (auto simp: indices_below_def len)
    moreover from mem f(2) obtain cost mult where "inst_c inst t = Some cost"
      "shift_cost_multiplier inst j = Some mult" "objective_coeffs m ! idx = cost * mult"
      by (fastforce simp: objective_ok_def)
    ultimately show ?thesis using l by blast
  qed
  moreover have "\<exists>idx. dict_lookup (x_aijk m) key = Some idx \<and> idx < length (objective_coeffs m) \<and>
              objective_coeffs m ! idx = 0" if "key \<in> x_keys inst" for key
  proof -
    from that have "key \<in> fst ` set (x_aijk m)" by (simp add: f(3))
    from dict_lookup_key [OF dx this] obtain idx where
      l: "dict_lookup (x_aijk m) key = Some idx" and mem: "(key, idx) \<in> set (x_aijk m)" by blast
    from mem bx have "idx < length (objective_coeffs m)" by (auto simp: indices_below_def len)
    moreover from mem f(2) have "objective_coeffs m ! idx = 0" by (fastforce simp: objective_ok_def)
    ultimately show ?thesis using l by blast
  qed
  moreover have "\<exists>idx. dict_lookup (y_tija m) key = Some idx \<and> idx < length (objective_coeffs m) \<and>
              objective_coeffs m ! idx = 0" if "key \<in> y_tija_keys inst" for key
  proof -
    from that have "key \<in> fst ` set (y_tija m)" by (simp add: f(4))
    from dict_lookup_key [OF dy this] obtain idx where
      l: "dict_lookup (y_tija m) key = Some idx" and mem: "(key, idx) \<in> set (y_tija m)" by blast
    from mem by' have "idx < length (objective_coeffs m)" by (auto simp: indices_below_def len)
    moreover from mem f(2) have "objective_coeffs m ! idx = 0" by (fastforce simp: objective_ok_def)
    ultimately show ?thesis using l by blast
  qed
  ultimately show ?thesis by (simp add: to_server_payload_def)
qed

theorem objective_construction_witness:
  "build_waes_model toy False = Some (toy_model False) \<and>
   \<not> maximize (to_server_payload (toy_model False) ([] :: (string, nat) dict)) \<and>
   (\<exists>idx cost mult. dict_lookup (y_tj (toy_model False)) (1, 1) = Some idx \<and>
      inst_c toy 1 = Some cost \<and> shift_cost_multiplier toy 1 = Some mult \<and>
      objective_coeffs (toy_model False) ! idx = cost * mult)"
proof -
  have t: "1 \<in> set (inst_T toy)" and j: "1 \<in> set (inst_M toy)"
    by (simp_all add: toy_def)
  from objective_construction [OF toy_build_waes, of "[] :: (string, nat) dict"] t j
  show ?thesis using toy_build_waes by blast
qed

section \<open>Variable-space invariance\<close>

text \<open>
  C2. For every validated instance the encoder either raises in both modes (this happens
  exactly when some dependent activity lists a parent outside \<open>A\<close>, see
  \<open>build_success_iff\<close>) or returns a model in both modes, and the two models have the same
  variable names, types, objective coefficients and bounds, the same index dictionaries
  \<open>x_aijk\<close>, \<open>y_tija\<close> and \<open>y_tj\<close>, of sizes \<open>|A| n\<^sup>2 |M|\<close>, \<open>|T| n |M| |A|\<close> and \<open>|T| |M|\<close>
  (the number of distinct activities, shifts and profiles), and the same number of
  constraint rows. \<open>build_ws_model\<close> is the encoder in baseline mode.
\<close>

theorem variable_space_invariance:
  assumes "validate_instance inst"
  shows "(build_waes_model inst False = None \<and> build_ws_model inst = None) \<or>
         (\<exists>m_waes m_ws.
            build_waes_model inst False = Some m_waes \<and> build_ws_model inst = Some m_ws \<and>
            variable_names m_waes = variable_names m_ws \<and>
            variable_types m_waes = variable_types m_ws \<and>
            objective_coeffs m_waes = objective_coeffs m_ws \<and>
            variable_lb m_waes = variable_lb m_ws \<and>
            variable_ub m_waes = variable_ub m_ws \<and>
            x_aijk m_waes = x_aijk m_ws \<and> y_tija m_waes = y_tija m_ws \<and> y_tj m_waes = y_tj m_ws \<and>
            distinct (map fst (x_aijk m_waes)) \<and> distinct (map fst (y_tija m_waes)) \<and>
            distinct (map fst (y_tj m_waes)) \<and>
            length (x_aijk m_waes) =
              card (set (inst_A inst)) * nat (inst_n inst) * nat (inst_n inst) * card (set (inst_M inst)) \<and>
            length (y_tija m_waes) =
              card (set (inst_T inst)) * nat (inst_n inst) * card (set (inst_M inst)) * card (set (inst_A inst)) \<and>
            length (y_tj m_waes) = card (set (inst_T inst)) * card (set (inst_M inst)) \<and>
            row_count m_waes = row_count m_ws)"
proof (cases "known_parents inst")
  case False
  with build_success_iff [OF assms] show ?thesis
    by (simp add: build_waes_model_def build_ws_model_def)
next
  case True
  with build_success_iff [OF assms] obtain m1 m2 where
    m1: "build_waes_model_thr (1 / 10 ^ 12) inst False = Some m1" and
    m2: "build_waes_model_thr (1 / 10 ^ 12) inst True = Some m2"
    by (metis not_None_eq)
  from build_catalog [OF m1] obtain m01 where
    m01: "create_variables inst False = Some m01" "catalog_of m1 = catalog_of m01" by blast
  from build_catalog [OF m2] obtain m02 where
    m02: "create_variables inst True = Some m02" "catalog_of m2 = catalog_of m02" by blast
  from create_variables_mode [of inst False True] m01(1) m02(1)
  have "var_catalog m01 = var_catalog m02" by simp
  with var_catalog_of [OF m01(2)] var_catalog_of [OF m02(2)]
  have eq: "var_catalog m1 = var_catalog m2" by simp
  note f = build_facts [OF m1]
  have d: "distinct (map fst (x_aijk m1))" "distinct (map fst (y_tija m1))"
    "distinct (map fst (y_tj m1))"
    using f(1) by (simp_all add: catalog_ok_def)
  have "length (x_aijk m1) =
          card (set (inst_A inst)) * nat (inst_n inst) * nat (inst_n inst) * card (set (inst_M inst))"
    by (simp add: dict_size [OF d(1)] f(3) x_keys_def card_cartesian_product card_N [OF assms])
  moreover have "length (y_tija m1) =
          card (set (inst_T inst)) * nat (inst_n inst) * card (set (inst_M inst)) * card (set (inst_A inst))"
    by (simp add: dict_size [OF d(2)] f(4) y_tija_keys_def card_cartesian_product card_N [OF assms])
  moreover have "length (y_tj m1) = card (set (inst_T inst)) * card (set (inst_M inst))"
    by (simp add: dict_size [OF d(3)] f(5) y_tj_keys_def card_cartesian_product)
  moreover have "row_count m1 = row_count m2"
    by (simp add: build_row_count [OF m1] build_row_count [OF m2])
  ultimately show ?thesis
    using eq d m1 m2 by (simp add: build_waes_model_def build_ws_model_def var_catalog_def)
qed

theorem variable_space_invariance_witness:
  "validate_instance toy_postpone \<and>
   build_waes_model toy_postpone False = Some toy_postpone_model \<and>
   build_ws_model toy_postpone = Some (toy_model True) \<and>
   x_aijk toy_postpone_model = x_aijk (toy_model True) \<and>
   length (x_aijk toy_postpone_model) =
     card (set (inst_A toy_postpone)) * nat (inst_n toy_postpone) * nat (inst_n toy_postpone) *
     card (set (inst_M toy_postpone)) \<and>
   row_count toy_postpone_model = row_count (toy_model True) \<and>
   csr_indices toy_postpone_model \<noteq> csr_indices (toy_model True)"
proof -
  have differ: "csr_indices toy_postpone_model \<noteq> csr_indices (toy_model True)"
    by (simp add: toy_postpone_model_def toy_model_def)
  have "x_aijk toy_postpone_model = x_aijk (toy_model True) \<and>
        length (x_aijk toy_postpone_model) =
          card (set (inst_A toy_postpone)) * nat (inst_n toy_postpone) * nat (inst_n toy_postpone) *
          card (set (inst_M toy_postpone)) \<and>
        row_count toy_postpone_model = row_count (toy_model True)"
    using variable_space_invariance [OF toy_postpone_valid]
    by (auto simp: toy_postpone_build_waes toy_postpone_build_ws)
  with differ toy_postpone_valid toy_postpone_build_waes toy_postpone_build_ws
  show ?thesis by blast
qed

section \<open>Totality of the encoder and of the audit\<close>

text \<open>
  C7 (the code departs from the claim). The claim promises that the encoder returns for every
  validated instance. \<open>validate_instance\<close> checks that the profiles of \<open>Ta\<close>, the
  activities of \<open>Ht\<close> and the intervals of \<open>Oj\<close> are known indices, but not the parents of
  \<open>Ga\<close>. On a validated instance the encoder returns, in either mode, exactly when every
  parent of a dependent activity is an activity of \<open>A\<close> (or there is no interval or no
  shift); otherwise the row loop of Eq. (4) or Eq. (5) looks up a key that \<open>x_aijk\<close> does
  not hold and raises \<^verbatim>\<open>KeyError\<close>.
\<close>

theorem encoder_returns_iff_parents_known:
  assumes "validate_instance inst"
  shows "(build_waes_model inst ws \<noteq> None) = known_parents inst \<and>
         (build_ws_model inst \<noteq> None) = known_parents inst"
  using build_success_iff [OF assms] by (simp add: build_waes_model_def build_ws_model_def)

text \<open>
  The validated instance \<open>toy_unknown_parent\<close>: the dependent activity 2 lists the parent
  3, which is not an activity; the encoder looks up \<open>x_aijk[(3, 1, 1, 1)]\<close> and raises in
  both modes.
\<close>

theorem encoder_raises_on_unknown_parent:
  "validate_instance toy_unknown_parent \<and>
   inst_Ga toy_unknown_parent 2 = Some [3] \<and> 3 \<notin> set (inst_A toy_unknown_parent) \<and>
   build_waes_model toy_unknown_parent False = None \<and>
   build_ws_model toy_unknown_parent = None"
proof -
  have "\<not> known_parents toy_unknown_parent"
    by (simp add: known_parents_def toy_unknown_parent_def toy_def get_or_empty_def)
  with encoder_returns_iff_parents_known [OF toy_unknown_parent_valid]
  have "build_waes_model toy_unknown_parent False = None"
    and "build_ws_model toy_unknown_parent = None" by simp_all
  then show ?thesis
    using toy_unknown_parent_valid by (simp add: toy_unknown_parent_def toy_def)
qed

text \<open>
  C6 (the code departs from the claim). The same missing check makes the audit raise: on
  \<open>toy_unknown_parent\<close> with solved values over exactly the dense key spaces, the check of
  Eq. (4) looks up \<open>solved.x_aijk[(3, 1, 1, 1)]\<close> and raises \<^verbatim>\<open>KeyError\<close>, in both modes.
\<close>

theorem audit_raises_on_unknown_parent:
  "validate_instance toy_unknown_parent \<and>
   fst ` set (solved_x_aijk zero_solved) = x_keys toy_unknown_parent \<and>
   fst ` set (solved_y_tija zero_solved) = y_tija_keys toy_unknown_parent \<and>
   fst ` set (solved_y_tj zero_solved) = y_tj_keys toy_unknown_parent \<and>
   run_audits toy_unknown_parent zero_solved False default_tol = None \<and>
   run_audits toy_unknown_parent zero_solved True default_tol = None"
proof -
  have "run_audits toy_unknown_parent zero_solved False default_tol = None" by code_simp
  moreover have "run_audits toy_unknown_parent zero_solved True default_tol = None" by code_simp
  ultimately show ?thesis
    using toy_unknown_parent_valid zero_solved_dense by simp
qed

theorem audit_raises_on_unknown_parent_witness:
  "run_audits toy_unknown_parent zero_solved False default_tol = None \<and>
   run_audits toy_unknown_parent zero_solved True default_tol = None"
  using audit_raises_on_unknown_parent by simp

section \<open>Round trip: rows satisfied, audit passed\<close>

text \<open>
  C1 (the claim does not hold as stated). \<^verbatim>\<open>add_row\<close> drops every coefficient of absolute
  value at most \<open>10\<^sup>-\<^sup>1\<^sup>2\<close>, also a nonzero one, while the audit recomputes each family from
  the instance data. On the validated instance \<open>tiny_share\<close> the share \<open>10\<^sup>-\<^sup>1\<^sup>3\<close> of the
  dependent activity is dropped from its row of Eq. (4), which then only asks for \<open>x \<ge> 0\<close>;
  the integer values \<open>tiny_share_solved\<close> satisfy every emitted row, and the audit reports a
  violation of Eq. (4) by \<open>10\<^sup>-\<^sup>3\<close>, above the tolerance \<open>10\<^sup>-\<^sup>4\<close>.
\<close>

theorem dropped_share_fails_audit:
  "validate_instance tiny_share \<and>
   build_waes_model tiny_share False = Some tiny_share_model \<and>
   linked tiny_share_model tiny_share_solved tiny_share_vector \<and>
   rows_satisfied tiny_share_model tiny_share_vector \<and>
   integer_valued tiny_share_solved \<and>
   run_audits tiny_share tiny_share_solved False default_tol =
     Some \<lparr>passed = False, tolerance = 1 / 10000,
            issues = [\<lparr>equation = ''Eq(4)'', detail = ''k=1, a=2'', violation = 1 / 1000\<rparr>]\<rparr>"
  using tiny_share_valid tiny_share_build tiny_share_linked tiny_share_rows tiny_share_integer
    tiny_share_audit
  by (intro conjI)

text \<open>
  C1 (amended). For an instance and a mode for which no nonzero coefficient is dropped, that
  is, for which the encoder returns the same model with the threshold 0 in place of
  \<open>10\<^sup>-\<^sup>1\<^sup>2\<close>: if the solved values are the solution vector \<open>z\<close> read through the
  model's index dictionaries (as \<^verbatim>\<open>_collect_solution\<close> builds them), \<open>z\<close> satisfies every
  emitted row exactly and every solved value is an integer, then for every tolerance
  \<open>tol \<ge> 0\<close> the audit returns a report with \<open>passed = True\<close> and no issue. Floats are
  idealised as exact rationals.
\<close>

theorem round_trip_audit_soundness:
  assumes "build_waes_model inst ws = Some m"
    and "build_waes_model_thr 0 inst ws = Some m"
    and "linked m solved z" and "rows_satisfied m z"
    and "integer_valued solved" and "0 \<le> tol"
  shows "run_audits inst solved ws tol = Some \<lparr>passed = True, tolerance = tol, issues = []\<rparr>"
  using assms(2-6) by (rule exact_rows_audit)

theorem round_trip_audit_soundness_witness:
  "build_waes_model toy False = Some (toy_model False) \<and>
   build_waes_model_thr 0 toy False = Some (toy_model False) \<and>
   linked (toy_model False) toy_solved toy_vector \<and>
   rows_satisfied (toy_model False) toy_vector \<and>
   integer_valued toy_solved \<and>
   run_audits toy toy_solved False default_tol =
     Some \<lparr>passed = True, tolerance = default_tol, issues = []\<rparr>"
proof -
  have "0 \<le> default_tol" by (simp add: default_tol_def)
  from round_trip_audit_soundness [OF toy_build_waes toy_build_exact toy_solved_linked
      toy_solved_rows toy_solved_integer this]
  show ?thesis
    using toy_build_waes toy_build_exact toy_solved_linked toy_solved_rows toy_solved_integer
    by (intro conjI)
qed

end
